theory Spec2Isabelle
  imports Main "HOL-Library.Word"
begin

unbundle bit_operations_syntax

section \<open>Machine types and error values\<close>

text \<open>
  The C sources use \<open>uint8_t\<close>, \<open>uint32_t\<close>, \<open>short\<close> (poll event masks) and
  \<open>size_t\<close>. They are modelled as words, so that \<open>+\<close> wraps as it does in C;
  \<open>size_t\<close> is taken to be 64 bits wide (LP64). File descriptors are C \<open>int\<close>s that
  are only ever compared, and are modelled as \<open>int\<close>.
\<close>

type_synonym u8 = "8 word"
type_synonym u16 = "16 word"
type_synonym u32 = "32 word"
type_synonym size_t = "64 word"

text \<open>
  Every failing path of the sources calls \<open>ssh_set_error\<close> with a message and returns
  \<open>-1\<close> (or \<open>NULL\<close>). The model returns the error as a value: one constructor per
  message, \<open>Inl\<close> for the failure, \<open>Inr\<close> for the \<open>0\<close> return.
\<close>

datatype error =
    BufferSizeTooLarge      \<comment> \<open>"buffer size too large"\<close>
  | DataTooLargeToRead      \<comment> \<open>"data too large to read"\<close>
  | ReadPastEndOfBuffer     \<comment> \<open>"read past end of buffer"\<close>
  | TooManyFds              \<comment> \<open>"too many fds to watch"\<close>
  | UnknownChannelType      \<comment> \<open>"unknown channel type %d"\<close>
  | UnknownChannelNumber u32  \<comment> \<open>"unknown channel number '%u'"\<close>
  | TransportError          \<comment> \<open>a failure reported by the transport layer\<close>

section \<open>packet.c: checked arithmetic and the byte reader\<close>

text \<open>\<open>checked_add\<close>: the sum, unless \<open>a + b\<close> wrapped around (\<open>a + b < a\<close>).\<close>

definition checked_add :: "size_t \<Rightarrow> size_t \<Rightarrow> error + size_t" where
  "checked_add a b = (if a + b < a then Inl BufferSizeTooLarge else Inr (a + b))"

text \<open>\<open>check_advance\<close>: is \<open>pos + adv \<le> len\<close>, the addition not overflowing?\<close>

definition check_advance :: "size_t \<Rightarrow> size_t \<Rightarrow> size_t \<Rightarrow> error + unit" where
  "check_advance p adv l =
     (case checked_add p adv of
        Inl _ \<Rightarrow> Inl DataTooLargeToRead
      | Inr new_pos \<Rightarrow> if new_pos > l then Inl ReadPastEndOfBuffer else Inr ())"

text \<open>
  \<open>struct SSH_STRING\<close> is a pointer and a length. The model keeps the bytes the
  pointer designates (\<open>str\<close>) beside the length field (\<open>slen\<close>).
\<close>

record SSH_STRING =
  str :: "u8 list"
  slen :: size_t

text \<open>
  \<open>struct SSH_BUF_READER\<close>: borrowed bytes, a position and a length. The length is a
  field of its own, as in C, where nothing ties it to the size of the storage behind
  \<open>data\<close>; a reader built by \<open>ssh_buf_reader_new\<close> over a byte sequence has both equal.
\<close>

record SSH_BUF_READER =
  data :: "u8 list"
  pos :: size_t
  len :: size_t

definition ssh_buf_reader_new :: "u8 list \<Rightarrow> size_t \<Rightarrow> SSH_BUF_READER" where
  "ssh_buf_reader_new d l = \<lparr>data = d, pos = 0, len = l\<rparr>"

text \<open>
  The read operations take the reader and the cell behind the output pointer
  (\<open>None\<close> is the \<open>NULL\<close> pointer, \<open>Some v\<close> a cell that holds \<open>v\<close>) and return the
  result code, the reader and the cell as the call leaves them.
\<close>

definition ssh_buf_read_u8 ::
  "SSH_BUF_READER \<Rightarrow> u8 option \<Rightarrow> (error + unit) \<times> SSH_BUF_READER \<times> u8 option" where
  "ssh_buf_read_u8 buf ret_val =
     (case check_advance (pos buf) 1 (len buf) of
        Inl e \<Rightarrow> (Inl e, buf, ret_val)
      | Inr _ \<Rightarrow>
          (Inr (), buf\<lparr>pos := pos buf + 1\<rparr>,
           map_option (\<lambda>_. data buf ! unat (pos buf)) ret_val))"

definition ssh_buf_read_u32 ::
  "SSH_BUF_READER \<Rightarrow> u32 option \<Rightarrow> (error + unit) \<times> SSH_BUF_READER \<times> u32 option" where
  "ssh_buf_read_u32 buf ret_val =
     (case check_advance (pos buf) 4 (len buf) of
        Inl e \<Rightarrow> (Inl e, buf, ret_val)
      | Inr _ \<Rightarrow>
          (Inr (), buf\<lparr>pos := pos buf + 4\<rparr>,
           map_option (\<lambda>_.
               push_bit 24 (ucast (data buf ! unat (pos buf)))
               OR push_bit 16 (ucast (data buf ! unat (pos buf + 1)))
               OR push_bit 8 (ucast (data buf ! unat (pos buf + 2)))
               OR ucast (data buf ! unat (pos buf + 3))) ret_val))"

text \<open>
  \<open>ssh_buf_read_string\<close> reads the length into a local first (through
  \<open>ssh_buf_read_u32\<close>, which advances the position), then checks the payload.
  The view returned is \<open>data + pos\<close> with \<open>len\<close> bytes.
\<close>

definition ssh_buf_read_string ::
  "SSH_BUF_READER \<Rightarrow> SSH_STRING option \<Rightarrow>
     (error + unit) \<times> SSH_BUF_READER \<times> SSH_STRING option" where
  "ssh_buf_read_string buf ret_val =
     (case ssh_buf_read_u32 buf (Some 0) of
        (Inl e, buf1, _) \<Rightarrow> (Inl e, buf1, ret_val)
      | (Inr _, buf1, l) \<Rightarrow>
          (let n = ucast (the l) :: size_t in
           case check_advance (pos buf1) n (len buf1) of
             Inl e \<Rightarrow> (Inl e, buf1, ret_val)
           | Inr _ \<Rightarrow>
               (Inr (), buf1\<lparr>pos := pos buf1 + n\<rparr>,
                map_option (\<lambda>_. \<lparr>str = take (unat n) (drop (unat (pos buf1)) (data buf1)),
                                  slen = n\<rparr>) ret_val)))"

definition ssh_buf_read_skip ::
  "SSH_BUF_READER \<Rightarrow> size_t \<Rightarrow> (error + unit) \<times> SSH_BUF_READER" where
  "ssh_buf_read_skip buf n =
     (case check_advance (pos buf) n (len buf) of
        Inl e \<Rightarrow> (Inl e, buf)
      | Inr _ \<Rightarrow> (Inr (), buf\<lparr>pos := pos buf + n\<rparr>))"


text \<open>The invariant of a reader, as the data model states it.\<close>

definition reader_inv :: "SSH_BUF_READER \<Rightarrow> bool" where
  "reader_inv buf \<longleftrightarrow> 0 \<le> pos buf \<and> pos buf \<le> len buf"

section \<open>packet.c: the growable buffer and its writers\<close>

text \<open>
  \<open>struct SSH_BUFFER\<close>: storage, used length and capacity. \<open>bdata\<close> holds the
  \<open>blen\<close> bytes written so far. The allocator (\<open>ssh_realloc\<close>) is outside the
  sources and is taken to succeed; the overflow checks of \<open>ssh_buf_grow\<close> are kept.
\<close>

record SSH_BUFFER =
  bdata :: "u8 list"
  blen :: size_t
  cap :: size_t

definition ssh_buf_new :: SSH_BUFFER where
  "ssh_buf_new = \<lparr>bdata = [], blen = 0, cap = 0\<rparr>"

definition BUFFER_GROW_SIZE :: size_t where
  "BUFFER_GROW_SIZE = 256"

definition ssh_buf_grow :: "SSH_BUFFER \<Rightarrow> size_t \<Rightarrow> error + SSH_BUFFER" where
  "ssh_buf_grow buf add_len =
     (case checked_add (blen buf) add_len of
        Inl e \<Rightarrow> Inl e
      | Inr new_cap \<Rightarrow>
          if cap buf \<ge> new_cap then Inr buf
          else (case checked_add new_cap (BUFFER_GROW_SIZE + 1) of
                  Inl e \<Rightarrow> Inl e
                | Inr c \<Rightarrow> Inr (buf\<lparr>cap := c div BUFFER_GROW_SIZE * BUFFER_GROW_SIZE\<rparr>)))"

definition ssh_buf_write_u8 :: "SSH_BUFFER \<Rightarrow> u8 \<Rightarrow> error + SSH_BUFFER" where
  "ssh_buf_write_u8 buf val =
     (case ssh_buf_grow buf 1 of
        Inl e \<Rightarrow> Inl e
      | Inr b \<Rightarrow> Inr (b\<lparr>bdata := bdata b @ [val], blen := blen b + 1\<rparr>))"

definition ssh_buf_write_u32 :: "SSH_BUFFER \<Rightarrow> u32 \<Rightarrow> error + SSH_BUFFER" where
  "ssh_buf_write_u32 buf val =
     (case ssh_buf_grow buf 4 of
        Inl e \<Rightarrow> Inl e
      | Inr b \<Rightarrow>
          Inr (b\<lparr>bdata := bdata b @ [ucast (drop_bit 24 val), ucast (drop_bit 16 val),
                                      ucast (drop_bit 8 val), ucast val],
                 blen := blen b + 4\<rparr>))"

text \<open>
  \<open>ssh_buf_write_data\<close>: the length as a \<open>u32\<close> (the \<open>size_t\<close> is truncated by
  the call), then \<open>ssh_buf_get_write_pointer\<close> and \<open>memcpy\<close> of \<open>len\<close> bytes.
\<close>

definition ssh_buf_write_data :: "SSH_BUFFER \<Rightarrow> u8 list \<Rightarrow> size_t \<Rightarrow> error + SSH_BUFFER" where
  "ssh_buf_write_data buf val n =
     (case ssh_buf_write_u32 buf (ucast n) of
        Inl e \<Rightarrow> Inl e
      | Inr b \<Rightarrow>
          (case ssh_buf_grow b n of
             Inl e \<Rightarrow> Inl e
           | Inr b' \<Rightarrow> Inr (b'\<lparr>bdata := bdata b' @ take (unat n) val, blen := blen b' + n\<rparr>)))"

text \<open>A C string is modelled by its bytes without the terminator; \<open>strlen\<close> is their number.\<close>

definition ssh_buf_write_cstring :: "SSH_BUFFER \<Rightarrow> u8 list \<Rightarrow> error + SSH_BUFFER" where
  "ssh_buf_write_cstring buf val = ssh_buf_write_data buf val (of_nat (length val))"

definition cstring :: "string \<Rightarrow> u8 list" where
  "cstring s = map (\<lambda>c. of_nat (of_char c)) s"

text \<open>
  A chain \<open>w1(pack) < 0 || w2(pack) < 0 || ...\<close> of writes into one packet: the writes
  run in order and the first failure ends the chain.
\<close>

fun write_seq :: "(SSH_BUFFER \<Rightarrow> error + SSH_BUFFER) list \<Rightarrow> SSH_BUFFER \<Rightarrow> error + SSH_BUFFER" where
  "write_seq [] b = Inr b"
| "write_seq (w # ws) b = (case w b of Inl e \<Rightarrow> Inl e | Inr b' \<Rightarrow> write_seq ws b')"

section \<open>Constants that channel.c takes from headers\<close>

text \<open>
  Modelled from the spec: \<open>ssh/ssh_constants.h\<close> is not among the sources; the message
  numbers are the ones the spec lists for the wire formats (RFC 4254).
\<close>

definition SSH_MSG_GLOBAL_REQUEST :: u8 where "SSH_MSG_GLOBAL_REQUEST = 80"
definition SSH_MSG_REQUEST_FAILURE :: u8 where "SSH_MSG_REQUEST_FAILURE = 82"
definition SSH_MSG_CHANNEL_OPEN :: u8 where "SSH_MSG_CHANNEL_OPEN = 90"
definition SSH_MSG_CHANNEL_OPEN_CONFIRMATION :: u8 where "SSH_MSG_CHANNEL_OPEN_CONFIRMATION = 91"
definition SSH_MSG_CHANNEL_OPEN_FAILURE :: u8 where "SSH_MSG_CHANNEL_OPEN_FAILURE = 92"
definition SSH_MSG_CHANNEL_WINDOW_ADJUST :: u8 where "SSH_MSG_CHANNEL_WINDOW_ADJUST = 93"
definition SSH_MSG_CHANNEL_DATA :: u8 where "SSH_MSG_CHANNEL_DATA = 94"
definition SSH_MSG_CHANNEL_EXTENDED_DATA :: u8 where "SSH_MSG_CHANNEL_EXTENDED_DATA = 95"
definition SSH_MSG_CHANNEL_EOF :: u8 where "SSH_MSG_CHANNEL_EOF = 96"
definition SSH_MSG_CHANNEL_CLOSE :: u8 where "SSH_MSG_CHANNEL_CLOSE = 97"
definition SSH_MSG_CHANNEL_REQUEST :: u8 where "SSH_MSG_CHANNEL_REQUEST = 98"
definition SSH_MSG_CHANNEL_SUCCESS :: u8 where "SSH_MSG_CHANNEL_SUCCESS = 99"

text \<open>The event bits of \<open><poll.h>\<close> (Linux values).\<close>

definition POLLIN :: u16 where "POLLIN = 0x001"
definition POLLPRI :: u16 where "POLLPRI = 0x002"
definition POLLOUT :: u16 where "POLLOUT = 0x004"
definition POLLHUP :: u16 where "POLLHUP = 0x010"
definition POLLWRBAND :: u16 where "POLLWRBAND = 0x200"

text \<open>\<open>SSH_CHAN_FD_READ\<close> and \<open>SSH_CHAN_FD_WRITE\<close> as \<open>ssh/channel.h\<close> defines them.\<close>

definition SSH_CHAN_FD_READ :: u8 where "SSH_CHAN_FD_READ = push_bit 0 1"
definition SSH_CHAN_FD_WRITE :: u8 where "SSH_CHAN_FD_WRITE = push_bit 1 1"

text \<open>
  Modelled from the spec: the header that defines \<open>SSH_CHAN_FD_CLOSE\<close> is not among the
  sources. The spec names three interest flags, READ, WRITE and CLOSE; the flag is taken
  to be the bit after the two that \<open>ssh/channel.h\<close> defines.
\<close>

definition SSH_CHAN_FD_CLOSE :: u8 where "SSH_CHAN_FD_CLOSE = push_bit 2 1"

definition MAX_POLL_FDS :: nat where "MAX_POLL_FDS = 8"

section \<open>channel.c: the poll set\<close>

definition chan_flags_to_pollfd_events :: "u8 \<Rightarrow> u16" where
  "chan_flags_to_pollfd_events chan_fd_flags =
     (let events = 0;
          events = (if chan_fd_flags AND (SSH_CHAN_FD_READ OR SSH_CHAN_FD_CLOSE) \<noteq> 0
                    then events OR (POLLIN OR POLLHUP) else events);
          events = (if chan_fd_flags AND SSH_CHAN_FD_WRITE \<noteq> 0
                    then events OR POLLOUT else events)
      in events)"

definition pollfd_events_to_chan_flags :: "u16 \<Rightarrow> u8" where
  "pollfd_events_to_chan_flags pollfd_events =
     (let flags = 0;
          flags = (if pollfd_events AND (POLLIN OR POLLPRI) \<noteq> 0
                   then flags OR SSH_CHAN_FD_READ else flags);
          flags = (if pollfd_events AND POLLHUP \<noteq> 0
                   then flags OR SSH_CHAN_FD_CLOSE else flags);
          flags = (if pollfd_events AND (POLLOUT OR POLLWRBAND) \<noteq> 0
                   then flags OR SSH_CHAN_FD_WRITE else flags)
      in flags)"

text \<open>
  An entry of a watch set is a \<open>struct pollfd\<close>, of which channel.c reads and writes
  \<open>fd\<close> and \<open>events\<close>. The field \<open>revents\<close> is filled in by \<open>poll\<close> and read only from
  the entry handed to \<open>chan_notify_channels_watch_fds\<close>; it is the extension
  \<open>pollfd_ready\<close>. An array with its element count (\<open>poll_fds\<close>, \<open>*num_poll_fds\<close>) is
  the list of its first \<open>*num_poll_fds\<close> entries.
\<close>

record pollfd =
  fd :: int
  events :: u16

record pollfd_ready = pollfd +
  revents :: u16

text \<open>The search loop of \<open>update_poll_fd_events\<close>: the first entry for \<open>fd\<close> is merged.\<close>

fun merge_poll_fd_events :: "pollfd list \<Rightarrow> int \<Rightarrow> u16 \<Rightarrow> u16 \<Rightarrow> pollfd list option" where
  "merge_poll_fd_events [] f add_events remove_events = None"
| "merge_poll_fd_events (p # ps) f add_events remove_events =
     (if fd p = f
      then Some (p\<lparr>events := (events p OR add_events) AND NOT remove_events\<rparr> # ps)
      else map_option ((#) p) (merge_poll_fd_events ps f add_events remove_events))"

definition update_poll_fd_events ::
  "pollfd list \<Rightarrow> int \<Rightarrow> u16 \<Rightarrow> u16 \<Rightarrow> (error + unit) \<times> pollfd list" where
  "update_poll_fd_events poll_fds f add_events remove_events =
     (case merge_poll_fd_events poll_fds f add_events remove_events of
        Some poll_fds' \<Rightarrow> (Inr (), poll_fds')
      | None \<Rightarrow>
          if length poll_fds < MAX_POLL_FDS
          then (Inr (), poll_fds @ [\<lparr>fd = f, events = add_events AND NOT remove_events\<rparr>])
          else (Inl TooManyFds, poll_fds))"

text \<open>
  The loop "remove empty watches" of \<open>ssh_chan_watch_fd\<close>: an entry whose events are
  \<open>0\<close> is overwritten by the ones after it and the index stays; otherwise the index
  moves on.
\<close>

fun remove_empty_watches :: "pollfd list \<Rightarrow> pollfd list" where
  "remove_empty_watches [] = []"
| "remove_empty_watches (p # ps) =
     (if events p = 0 then remove_empty_watches ps else p # remove_empty_watches ps)"


section \<open>channel.c: channels and the connection\<close>

datatype CHAN_STATUS =
    CHAN_STATUS_CREATED
  | CHAN_STATUS_REQUESTED
  | CHAN_STATUS_OPEN
  | CHAN_STATUS_CLOSED

text \<open>
  \<open>enum SSH_CHAN_TYPE\<close> has the one member \<open>SSH_CHAN_TYPE_SESSION\<close>; a C enum can
  hold other integers, which \<open>chan_get_type_data\<close> rejects.
\<close>

datatype SSH_CHAN_TYPE = SSH_CHAN_TYPE_SESSION | SSH_CHAN_TYPE_OTHER int

record SSH_CHAN_SESSION_CONFIG =
  run_command :: "u8 list option"
  alloc_pty :: int
  term_name :: "u8 list"
  term_width :: u32
  term_height :: u32

text \<open>
  The callbacks are host code. The model records every invocation, with its arguments
  and with the value the host returned, in the connection's trace. The channel is
  passed as its local number (what \<open>ssh_chan_get_num\<close> shows of it) and \<open>userdata\<close> is
  an opaque number. The two callbacks whose result channel.c can test, \<open>notify_open\<close>
  and \<open>notify_fd_ready\<close>, are fields of the channel: functions from their arguments to
  the value returned. The other callbacks return \<open>void\<close> and appear in the trace.
  A call that the host makes back into the library from inside \<open>open\<close>,
  \<open>open_failed\<close>, \<open>fd_ready\<close> or \<open>received\<close> is a call of its own in this model.
\<close>

datatype callback =
    NotifyOpen u32 nat int                 \<comment> \<open>channel, userdata, value returned\<close>
  | NotifyOpenFailed u32 nat
  | NotifyClosed u32 nat
  | NotifyFdReady u32 nat int u8 int       \<comment> \<open>channel, userdata, fd, flags, value returned\<close>
  | NotifyReceived u32 nat "u8 list" size_t  \<comment> \<open>channel, userdata, data, data_len\<close>

text \<open>
  The \<open>closed\<close> callback is not the last thing \<open>ssh_chan_close\<close> does: the channel
  is still OPEN while it runs and is marked CLOSED only when it has returned. What the
  callback does to the channel it is handed therefore matters, and the model keeps it:
  \<open>notify_closed\<close> is the list of library calls that the host's callback makes on that
  channel, in order. A call of \<open>ssh_chan_close\<close> from inside the callback carries the
  calls that the callback makes should that inner call invoke it again. (A callback
  that closes again at every depth never returns; it has no such list.)
\<close>

datatype host_call =
    HostClose "host_call list"   \<comment> \<open>\<open>ssh_chan_close(chan)\<close>; the calls of the callback it may invoke\<close>
  | HostWatchFd int u8 u8        \<comment> \<open>\<open>ssh_chan_watch_fd(chan, fd, enable, disable)\<close>\<close>

record SSH_CHAN_CONFIG =
  cfg_type :: SSH_CHAN_TYPE
  cfg_type_config :: SSH_CHAN_SESSION_CONFIG
  cfg_userdata :: nat
  cfg_notify_open :: "u32 \<Rightarrow> nat \<Rightarrow> int"
  cfg_notify_fd_ready :: "u32 \<Rightarrow> nat \<Rightarrow> int \<Rightarrow> u8 \<Rightarrow> int"
  cfg_notify_closed :: "host_call list"

record SSH_CHAN =
  userdata :: nat
  status :: CHAN_STATUS
  watch_fds :: "pollfd list"
  local_num :: u32
  remote_num :: u32
  local_max_packet_size :: u32
  local_window_size :: u32
  remote_max_packet_size :: u32
  remote_window_size :: u32
  chan_type :: SSH_CHAN_TYPE
  type_config :: SSH_CHAN_SESSION_CONFIG
  notify_open :: "u32 \<Rightarrow> nat \<Rightarrow> int"
  notify_fd_ready :: "u32 \<Rightarrow> nat \<Rightarrow> int \<Rightarrow> u8 \<Rightarrow> int"
  notify_closed :: "host_call list"

text \<open>
  Modelled from the spec: \<open>struct SSH_CONN\<close> and the transport functions
  \<open>ssh_conn_new_packet\<close>, \<open>ssh_conn_send_packet\<close> and \<open>ssh_conn_recv_packet\<close> are
  declared in \<open>ssh/connection_i.h\<close> but defined outside the sources. The connection is
  the ordered channel table (\<open>channels\<close>, \<open>num_channels\<close>), the packets handed to the
  transport so far (\<open>sent\<close>), whether the transport still accepts packets
  (\<open>transport_ok\<close>) and the trace of callbacks. \<open>ssh_conn_new_packet\<close> gives an empty
  buffer, or \<open>NULL\<close> when the transport is down; \<open>ssh_conn_send_packet\<close> finalizes and
  enqueues the packet.
\<close>

record SSH_CONN =
  channels :: "SSH_CHAN list"
  sent :: "u8 list list"
  transport_ok :: bool
  trace :: "callback list"

definition ssh_conn_new_packet :: "SSH_CONN \<Rightarrow> error + SSH_BUFFER" where
  "ssh_conn_new_packet conn = (if transport_ok conn then Inr ssh_buf_new else Inl TransportError)"

definition ssh_conn_send_packet :: "SSH_CONN \<Rightarrow> SSH_BUFFER \<Rightarrow> error + SSH_CONN" where
  "ssh_conn_send_packet conn pack =
     (if transport_ok conn then Inr (conn\<lparr>sent := sent conn @ [bdata pack]\<rparr>)
      else Inl TransportError)"

text \<open>
  Building one packet and sending it: \<open>ssh_conn_new_packet\<close>, the chain of writes,
  \<open>ssh_conn_send_packet\<close>, any failure ending the chain.
\<close>

definition send_new_packet ::
  "SSH_CONN \<Rightarrow> (SSH_BUFFER \<Rightarrow> error + SSH_BUFFER) list \<Rightarrow> error + SSH_CONN" where
  "send_new_packet conn writes =
     (case ssh_conn_new_packet conn of
        Inl e \<Rightarrow> Inl e
      | Inr pack \<Rightarrow>
          (case write_seq writes pack of
             Inl e \<Rightarrow> Inl e
           | Inr pack' \<Rightarrow> ssh_conn_send_packet conn pack'))"

text \<open>
  Modelled from the spec: \<open>ssh_packet_get_type\<close> is not among the sources; the spec has
  the dispatch switch on the first byte of the packet. A packet of the transport has at
  least that byte; for the empty packet the model answers \<open>0\<close>, which is no message
  number.
\<close>

definition ssh_packet_get_type :: "SSH_BUF_READER \<Rightarrow> u8" where
  "ssh_packet_get_type pack = (case data pack of [] \<Rightarrow> 0 | t # _ \<Rightarrow> t)"

definition chan_get_type_data :: "SSH_CHAN_TYPE \<Rightarrow> error + u8 list" where
  "chan_get_type_data t =
     (case t of SSH_CHAN_TYPE_SESSION \<Rightarrow> Inr (cstring ''session'')
              | SSH_CHAN_TYPE_OTHER _ \<Rightarrow> Inl UnknownChannelType)"

subsection \<open>chan_new\<close>

text \<open>
  The allocation loop of \<open>chan_new\<close>:
  \<^verbatim>\<open>for (i = 0; i < conn->num_channels; i++)
    if (conn->channels[i]->local_num == local_num) { local_num++; i = 0; }\<close>
  After a hit the body sets \<open>i = 0\<close> and the loop's \<open>i++\<close> runs before the next
  test, so the scan goes on at index \<open>1\<close>. The candidate is a \<open>uint32_t\<close> and wraps;
  \<open>None\<close> is a loop that never ends.
\<close>

partial_function (option) chan_new_local_num :: "SSH_CHAN list \<Rightarrow> nat \<Rightarrow> u32 \<Rightarrow> u32 option" where
  "chan_new_local_num chans i n =
     (if i < length chans
      then (if local_num (chans ! i) = n
            then chan_new_local_num chans (Suc 0) (n + 1)
            else chan_new_local_num chans (Suc i) n)
      else Some n)"

declare chan_new_local_num.simps [code]

text \<open>
  \<open>chan_new\<close> fills the new channel in and appends it to the table. \<open>ssh_alloc\<close> is
  outside the sources and is taken to succeed.
\<close>

definition chan_new :: "SSH_CONN \<Rightarrow> SSH_CHAN_CONFIG \<Rightarrow> SSH_CONN option" where
  "chan_new conn cfg =
     (case chan_new_local_num (channels conn) 0 0 of
        None \<Rightarrow> None
      | Some n \<Rightarrow>
          Some (conn\<lparr>channels := channels conn @
            [\<lparr>userdata = cfg_userdata cfg,
              status = CHAN_STATUS_REQUESTED,
              watch_fds = [],
              local_num = n,
              remote_num = 0,
              local_max_packet_size = 65536,
              local_window_size = 256 * 1024,
              remote_max_packet_size = 0,
              remote_window_size = 0,
              chan_type = cfg_type cfg,
              type_config = cfg_type_config cfg,
              notify_open = cfg_notify_open cfg,
              notify_fd_ready = cfg_notify_fd_ready cfg,
              notify_closed = cfg_notify_closed cfg\<rparr>]\<rparr>))"

subsection \<open>ssh_chan_watch_fd\<close>

definition ssh_chan_watch_fd :: "SSH_CHAN \<Rightarrow> int \<Rightarrow> u8 \<Rightarrow> u8 \<Rightarrow> (error + unit) \<times> SSH_CHAN" where
  "ssh_chan_watch_fd chan f enable_fd_flags disable_fd_flags =
     (let enable_events = chan_flags_to_pollfd_events enable_fd_flags;
          disable_events = chan_flags_to_pollfd_events disable_fd_flags
      in case update_poll_fd_events (watch_fds chan) f enable_events disable_events of
           (Inl e, fds) \<Rightarrow>
             if enable_events \<noteq> 0 then (Inl e, chan\<lparr>watch_fds := fds\<rparr>)
             else (Inr (), chan\<lparr>watch_fds := remove_empty_watches fds\<rparr>)
         | (Inr _, fds) \<Rightarrow> (Inr (), chan\<lparr>watch_fds := remove_empty_watches fds\<rparr>))"

subsection \<open>Lookup, close and sweep\<close>

text \<open>
  \<open>chan_get_by_num\<close> returns a pointer to the first channel of the table with the
  number; the model returns its index, and an update through the pointer is an update
  of the table at that index.
\<close>

fun chan_index_by_num :: "SSH_CHAN list \<Rightarrow> u32 \<Rightarrow> nat option" where
  "chan_index_by_num [] n = None"
| "chan_index_by_num (c # cs) n =
     (if local_num c = n then Some 0 else map_option Suc (chan_index_by_num cs n))"

definition chan_get_by_num :: "SSH_CONN \<Rightarrow> u32 \<Rightarrow> error + nat" where
  "chan_get_by_num conn n =
     (case chan_index_by_num (channels conn) n of
        Some i \<Rightarrow> Inr i
      | None \<Rightarrow> Inl (UnknownChannelNumber n))"

text \<open>
  \<open>ssh_chan_close\<close>:
  \<^verbatim>\<open>if (chan->status == CHAN_STATUS_OPEN) {
    chan->notify_closed(chan, chan->userdata);
    chan->status = CHAN_STATUS_CLOSED;
  }\<close>
  The callback runs on the channel as it is, still OPEN; the calls it makes
  (\<open>host_calls\<close>) run on that channel one after the other; the status is written when
  the callback has returned. \<open>ssh_chan_close_with cb\<close> is the call when the callback, if
  invoked, makes the calls \<open>cb\<close>. The result is the channel afterwards and the callbacks
  invoked, in order.
\<close>

fun ssh_chan_close_with :: "host_call list \<Rightarrow> SSH_CHAN \<Rightarrow> SSH_CHAN \<times> callback list"
  and host_calls :: "host_call list \<Rightarrow> SSH_CHAN \<Rightarrow> SSH_CHAN \<times> callback list"
  and host_call_run :: "host_call \<Rightarrow> SSH_CHAN \<Rightarrow> SSH_CHAN \<times> callback list" where
  "ssh_chan_close_with cb chan =
     (if status chan = CHAN_STATUS_OPEN
      then (case host_calls cb chan of
              (chan', calls) \<Rightarrow>
                (chan'\<lparr>status := CHAN_STATUS_CLOSED\<rparr>,
                 NotifyClosed (local_num chan) (userdata chan) # calls))
      else (chan, []))"
| "host_calls [] chan = (chan, [])"
| "host_calls (c # cs) chan =
     (case host_call_run c chan of
        (chan1, calls1) \<Rightarrow>
          (case host_calls cs chan1 of (chan2, calls2) \<Rightarrow> (chan2, calls1 @ calls2)))"
| "host_call_run (HostClose cb) chan = ssh_chan_close_with cb chan"
| "host_call_run (HostWatchFd f en dis) chan = (snd (ssh_chan_watch_fd chan f en dis), [])"

definition ssh_chan_close :: "SSH_CHAN \<Rightarrow> SSH_CHAN \<times> callback list" where
  "ssh_chan_close chan = ssh_chan_close_with (notify_closed chan) chan"

text \<open>The same call on the channel at index \<open>i\<close> of a connection's table.\<close>

definition ssh_chan_close_at :: "SSH_CONN \<Rightarrow> nat \<Rightarrow> SSH_CONN" where
  "ssh_chan_close_at conn i =
     (case ssh_chan_close (channels conn ! i) of
        (chan', calls) \<Rightarrow>
          conn\<lparr>channels := (channels conn)[i := chan'], trace := trace conn @ calls\<rparr>)"

text \<open>
  The loop of \<open>chan_remove_closed_channels\<close>: a CLOSED channel is removed by moving
  the rest of the table down, the index staying; otherwise the index moves on.
\<close>

fun remove_closed :: "SSH_CHAN list \<Rightarrow> SSH_CHAN list" where
  "remove_closed [] = []"
| "remove_closed (c # cs) =
     (if status c = CHAN_STATUS_CLOSED then remove_closed cs else c # remove_closed cs)"

definition chan_remove_closed_channels :: "SSH_CONN \<Rightarrow> SSH_CONN" where
  "chan_remove_closed_channels conn = conn\<lparr>channels := remove_closed (channels conn)\<rparr>"

fun close_all :: "SSH_CONN \<Rightarrow> nat \<Rightarrow> SSH_CONN" where
  "close_all conn 0 = conn"
| "close_all conn (Suc k) =
     close_all (ssh_chan_close_at conn (length (channels conn) - Suc k)) k"

definition chan_close_all_channels :: "SSH_CONN \<Rightarrow> SSH_CONN" where
  "chan_close_all_channels conn =
     chan_remove_closed_channels (close_all conn (length (channels conn)))"

subsection \<open>Readiness dispatch\<close>

text \<open>
  \<open>chan_notify_channels_watch_fds\<close>: for every channel and every entry of its watch
  set, \<open>notify_fd_ready\<close> is called when \<open>revents\<close> is not \<open>0\<close> and the descriptors
  agree. The function is \<open>void\<close> and the value the callback returns is dropped: it
  reaches the trace and nothing else.
\<close>

fun notify_watch_fds :: "SSH_CHAN \<Rightarrow> pollfd list \<Rightarrow> pollfd_ready \<Rightarrow> callback list" where
  "notify_watch_fds chan [] poll_fd = []"
| "notify_watch_fds chan (w # ws) poll_fd =
     (if revents poll_fd \<noteq> 0 \<and> fd poll_fd = fd w
      then [NotifyFdReady (local_num chan) (userdata chan) (fd poll_fd)
              (pollfd_events_to_chan_flags (revents poll_fd))
              (notify_fd_ready chan (local_num chan) (userdata chan) (fd poll_fd)
                 (pollfd_events_to_chan_flags (revents poll_fd)))]
      else [])
     @ notify_watch_fds chan ws poll_fd"

fun notify_channels :: "SSH_CHAN list \<Rightarrow> pollfd_ready \<Rightarrow> callback list" where
  "notify_channels [] poll_fd = []"
| "notify_channels (chan # chans) poll_fd =
     notify_watch_fds chan (watch_fds chan) poll_fd @ notify_channels chans poll_fd"

definition chan_notify_channels_watch_fds :: "SSH_CONN \<Rightarrow> pollfd_ready \<Rightarrow> SSH_CONN" where
  "chan_notify_channels_watch_fds conn poll_fd =
     conn\<lparr>trace := trace conn @ notify_channels (channels conn) poll_fd\<rparr>"


subsection \<open>Outgoing requests\<close>

definition chan_handle_global_request ::
  "SSH_CONN \<Rightarrow> SSH_BUF_READER \<Rightarrow> (error + unit) \<times> SSH_CONN" where
  "chan_handle_global_request conn pack =
     (case ssh_buf_read_skip pack 1 of
        (Inl e, _) \<Rightarrow> (Inl e, conn)
      | (Inr _, pack1) \<Rightarrow>
     (case ssh_buf_read_string pack1 (Some \<lparr>str = [], slen = 0\<rparr>) of
        (Inl e, _, _) \<Rightarrow> (Inl e, conn)
      | (Inr _, pack2, req_name) \<Rightarrow>
     (case ssh_buf_read_u8 pack2 (Some 0) of
        (Inl e, _, _) \<Rightarrow> (Inl e, conn)
      | (Inr _, pack3, want_reply) \<Rightarrow>
          if the want_reply \<noteq> 0
          then (case send_new_packet conn
                       [\<lambda>b. ssh_buf_write_u8 b SSH_MSG_REQUEST_FAILURE] of
                  Inl e \<Rightarrow> (Inl e, conn)
                | Inr conn' \<Rightarrow> (Inr (), conn'))
          else (Inr (), conn))))"

definition chan_send_channel_open :: "SSH_CONN \<Rightarrow> SSH_CHAN \<Rightarrow> error + SSH_CONN" where
  "chan_send_channel_open conn chan =
     (case chan_get_type_data (chan_type chan) of
        Inl e \<Rightarrow> Inl e
      | Inr name \<Rightarrow>
          send_new_packet conn
            [\<lambda>b. ssh_buf_write_u8 b SSH_MSG_CHANNEL_OPEN,
             \<lambda>b. ssh_buf_write_cstring b name,
             \<lambda>b. ssh_buf_write_u32 b (local_num chan),
             \<lambda>b. ssh_buf_write_u32 b (local_window_size chan),
             \<lambda>b. ssh_buf_write_u32 b (local_max_packet_size chan)])"

subsection \<open>Inbound channel packets\<close>

text \<open>
  The body of \<open>case SSH_MSG_CHANNEL_OPEN_CONFIRMATION\<close>. The three reads store
  straight into the channel, so a read that fails leaves the fields read before it
  updated. For a session channel the pty request and the shell request follow.
\<close>

definition chan_open_confirmation ::
  "SSH_CONN \<Rightarrow> nat \<Rightarrow> SSH_BUF_READER \<Rightarrow> (error + unit) \<times> SSH_CONN" where
  "chan_open_confirmation conn i pack =
     (let chan = channels conn ! i in
      case ssh_buf_read_u32 pack (Some (remote_num chan)) of
        (Inl e, _, _) \<Rightarrow> (Inl e, conn)
      | (Inr _, pack1, v1) \<Rightarrow>
     (let chan = chan\<lparr>remote_num := the v1\<rparr>;
          conn = conn\<lparr>channels := (channels conn)[i := chan]\<rparr> in
      case ssh_buf_read_u32 pack1 (Some (remote_window_size chan)) of
        (Inl e, _, _) \<Rightarrow> (Inl e, conn)
      | (Inr _, pack2, v2) \<Rightarrow>
     (let chan = chan\<lparr>remote_window_size := the v2\<rparr>;
          conn = conn\<lparr>channels := (channels conn)[i := chan]\<rparr> in
      case ssh_buf_read_u32 pack2 (Some (remote_max_packet_size chan)) of
        (Inl e, _, _) \<Rightarrow> (Inl e, conn)
      | (Inr _, pack3, v3) \<Rightarrow>
     (let chan = chan\<lparr>remote_max_packet_size := the v3\<rparr>;
          conn = conn\<lparr>channels := (channels conn)[i := chan]\<rparr> in
      case chan_type chan of
        SSH_CHAN_TYPE_SESSION \<Rightarrow>
          (let cfg = type_config chan in
           case send_new_packet conn
                  [\<lambda>b. ssh_buf_write_u8 b SSH_MSG_CHANNEL_REQUEST,
                   \<lambda>b. ssh_buf_write_u32 b (remote_num chan),
                   \<lambda>b. ssh_buf_write_cstring b (cstring ''pty-req''),
                   \<lambda>b. ssh_buf_write_u8 b 0,
                   \<lambda>b. ssh_buf_write_cstring b (term_name cfg),
                   \<lambda>b. ssh_buf_write_u32 b (term_width cfg),
                   \<lambda>b. ssh_buf_write_u32 b (term_height cfg),
                   \<lambda>b. ssh_buf_write_u32 b 0,
                   \<lambda>b. ssh_buf_write_u32 b 0,
                   \<lambda>b. ssh_buf_write_cstring b (cstring [])] of
             Inl e \<Rightarrow> (Inl e, conn)
           | Inr conn1 \<Rightarrow>
               (case send_new_packet conn1
                       [\<lambda>b. ssh_buf_write_u8 b SSH_MSG_CHANNEL_REQUEST,
                        \<lambda>b. ssh_buf_write_u32 b (remote_num chan),
                        \<lambda>b. ssh_buf_write_cstring b (cstring ''shell''),
                        \<lambda>b. ssh_buf_write_u8 b 1] of
                  Inl e \<Rightarrow> (Inl e, conn1)
                | Inr conn2 \<Rightarrow> (Inr (), conn2)))
      | SSH_CHAN_TYPE_OTHER _ \<Rightarrow> (Inr (), conn)))))"

text \<open>
  The \<open>switch (pack_type)\<close> of \<open>chan_process_channel_packet\<close>, for the channel the
  lookup found (at index \<open>i\<close> of the table) and the reader behind the channel number.
  A type without a \<open>case\<close> reaches \<open>default\<close>, which dumps the packet to the log and
  changes nothing.
\<close>

definition chan_channel_packet_switch ::
  "SSH_CONN \<Rightarrow> nat \<Rightarrow> u8 \<Rightarrow> SSH_BUF_READER \<Rightarrow> (error + unit) \<times> SSH_CONN" where
  "chan_channel_packet_switch conn i pack_type pack =
     (let chan = channels conn ! i in
      if pack_type = SSH_MSG_CHANNEL_OPEN_CONFIRMATION then
        chan_open_confirmation conn i pack
      else if pack_type = SSH_MSG_CHANNEL_OPEN_FAILURE then
        (Inr (), conn\<lparr>trace := trace conn @ [NotifyOpenFailed (local_num chan) (userdata chan)]\<rparr>)
      else if pack_type = SSH_MSG_CHANNEL_SUCCESS then
        (let chan = chan\<lparr>status := CHAN_STATUS_OPEN\<rparr>;
             r = notify_open chan (local_num chan) (userdata chan);
             conn = conn\<lparr>channels := (channels conn)[i := chan],
                         trace := trace conn @ [NotifyOpen (local_num chan) (userdata chan) r]\<rparr>
         in if r < 0 then (Inr (), ssh_chan_close_at conn i) else (Inr (), conn))
      else if pack_type = SSH_MSG_CHANNEL_DATA then
        (case ssh_buf_read_string pack (Some \<lparr>str = [], slen = 0\<rparr>) of
           (Inl e, _, _) \<Rightarrow> (Inl e, conn)
         | (Inr _, _, d) \<Rightarrow>
             (Inr (), conn\<lparr>trace := trace conn @
                [NotifyReceived (local_num chan) (userdata chan) (str (the d)) (slen (the d))]\<rparr>))
      else (Inr (), conn))"

text \<open>
  \<open>chan_process_channel_packet\<close>: the packet type, the channel number, the lookup,
  then the \<open>switch\<close>.
\<close>

definition chan_process_channel_packet ::
  "SSH_CONN \<Rightarrow> SSH_BUF_READER \<Rightarrow> (error + unit) \<times> SSH_CONN" where
  "chan_process_channel_packet conn pack =
     (case ssh_buf_read_u8 pack (Some 0) of
        (Inl e, _, _) \<Rightarrow> (Inl e, conn)
      | (Inr _, pack1, pack_type) \<Rightarrow>
     (case ssh_buf_read_u32 pack1 (Some 0) of
        (Inl e, _, _) \<Rightarrow> (Inl e, conn)
      | (Inr _, pack2, num) \<Rightarrow>
     (case chan_get_by_num conn (the num) of
        Inl e \<Rightarrow> (Inl e, conn)
      | Inr i \<Rightarrow> chan_channel_packet_switch conn i (the pack_type) pack2)))"

text \<open>
  \<open>chan_process_packets\<close> takes packets from the transport until it has none. The
  model is given what \<open>ssh_conn_recv_packet\<close> returns: the packets that are there, and
  how the call that finds no packet ends (\<open>EWOULDBLOCK\<close> or a failure). A packet type
  outside the two groups of \<open>case\<close> labels reaches \<open>default\<close>, which dumps the packet
  to the log; the loop goes on.
\<close>

datatype recv_end = EWOULDBLOCK | RecvFailed

fun chan_process_packets ::
  "SSH_CONN \<Rightarrow> u8 list list \<Rightarrow> recv_end \<Rightarrow> (error + unit) \<times> SSH_CONN" where
  "chan_process_packets conn [] e =
     (case e of EWOULDBLOCK \<Rightarrow> (Inr (), conn) | RecvFailed \<Rightarrow> (Inl TransportError, conn))"
| "chan_process_packets conn (p # ps) e =
     (let pack = ssh_buf_reader_new p (of_nat (length p));
          t = ssh_packet_get_type pack
      in if t = SSH_MSG_GLOBAL_REQUEST then
           (case chan_handle_global_request conn pack of
              (Inl er, conn') \<Rightarrow> (Inl er, conn')
            | (Inr _, conn') \<Rightarrow> chan_process_packets conn' ps e)
         else if t = SSH_MSG_CHANNEL_OPEN_CONFIRMATION \<or> t = SSH_MSG_CHANNEL_OPEN_FAILURE
                 \<or> t = SSH_MSG_CHANNEL_SUCCESS \<or> t = SSH_MSG_CHANNEL_WINDOW_ADJUST
                 \<or> t = SSH_MSG_CHANNEL_DATA then
           (case chan_process_channel_packet conn pack of
              (Inl er, conn') \<Rightarrow> (Inl er, conn')
            | (Inr _, conn') \<Rightarrow> chan_process_packets conn' ps e)
         else chan_process_packets conn ps e)"


section \<open>Packets on the wire and concrete connections\<close>

text \<open>
  \<open>ssh_buf_set_u32\<close> of packet.c: the four bytes of a \<open>u32\<close>, most significant first.
\<close>

definition ssh_buf_set_u32 :: "u32 \<Rightarrow> u8 list" where
  "ssh_buf_set_u32 v =
     [ucast (drop_bit 24 v), ucast (drop_bit 16 v), ucast (drop_bit 8 v), ucast v]"

text \<open>
  A configuration of a session channel: the host's \<open>userdata\<close>, the value its
  \<open>notify_open\<close> returns and the value its \<open>notify_fd_ready\<close> returns; its \<open>closed\<close>
  callback makes no library call.
\<close>

definition session_cfg :: "nat \<Rightarrow> int \<Rightarrow> int \<Rightarrow> SSH_CHAN_CONFIG" where
  "session_cfg u open_ret ready_ret =
     \<lparr>cfg_type = SSH_CHAN_TYPE_SESSION,
      cfg_type_config = \<lparr>run_command = None, alloc_pty = 1, term_name = cstring ''xterm'',
                         term_width = 80, term_height = 24\<rparr>,
      cfg_userdata = u,
      cfg_notify_open = (\<lambda>_ _. open_ret),
      cfg_notify_fd_ready = (\<lambda>_ _ _ _. ready_ret),
      cfg_notify_closed = []\<rparr>"

text \<open>A connection without channels, and the channel \<open>chan_new\<close> makes of \<open>session_cfg\<close>.\<close>

definition new_conn :: SSH_CONN where
  "new_conn = \<lparr>channels = [], sent = [], transport_ok = True, trace = []\<rparr>"

definition session_chan :: "u32 \<Rightarrow> CHAN_STATUS \<Rightarrow> nat \<Rightarrow> int \<Rightarrow> int \<Rightarrow> SSH_CHAN" where
  "session_chan n st u open_ret ready_ret =
     \<lparr>userdata = u,
      status = st,
      watch_fds = [],
      local_num = n,
      remote_num = 0,
      local_max_packet_size = 65536,
      local_window_size = 262144,
      remote_max_packet_size = 0,
      remote_window_size = 0,
      chan_type = SSH_CHAN_TYPE_SESSION,
      type_config = \<lparr>run_command = None, alloc_pty = 1, term_name = cstring ''xterm'',
                     term_width = 80, term_height = 24\<rparr>,
      notify_open = (\<lambda>_ _. open_ret),
      notify_fd_ready = (\<lambda>_ _ _ _. ready_ret),
      notify_closed = []\<rparr>"

text \<open>
  The operations that reach a channel between its registration and its sweep, as
  operations on the connection: a batch of inbound packets (\<open>chan_process_packets\<close>),
  the dispatch of one ready descriptor (\<open>chan_notify_channels_watch_fds\<close>), a call of
  \<open>ssh_chan_close\<close> or \<open>ssh_chan_watch_fd\<close> by the host on the channel at an index of
  the table, the sweep (\<open>chan_remove_closed_channels\<close>), a registration (\<open>chan_new\<close>)
  and the teardown (\<open>chan_close_all_channels\<close>). A run applies a sequence of them.
\<close>

datatype engine_op =
    Packets "u8 list list" recv_end
  | FdReady pollfd_ready
  | HostCloseChan nat
  | HostWatchChan nat int u8 u8
  | Sweep
  | NewChan SSH_CHAN_CONFIG
  | CloseAll

fun engine_step :: "engine_op \<Rightarrow> SSH_CONN \<Rightarrow> SSH_CONN" where
  "engine_step (Packets ps e) conn = snd (chan_process_packets conn ps e)"
| "engine_step (FdReady poll_fd) conn = chan_notify_channels_watch_fds conn poll_fd"
| "engine_step (HostCloseChan i) conn =
     (if i < length (channels conn) then ssh_chan_close_at conn i else conn)"
| "engine_step (HostWatchChan i f en dis) conn =
     (if i < length (channels conn)
      then conn\<lparr>channels := (channels conn)[i := snd (ssh_chan_watch_fd (channels conn ! i) f en dis)]\<rparr>
      else conn)"
| "engine_step Sweep conn = chan_remove_closed_channels conn"
| "engine_step (NewChan cfg) conn = (case chan_new conn cfg of None \<Rightarrow> conn | Some conn' \<Rightarrow> conn')"
| "engine_step CloseAll conn = chan_close_all_channels conn"

fun engine_run :: "engine_op list \<Rightarrow> SSH_CONN \<Rightarrow> SSH_CONN" where
  "engine_run [] conn = conn"
| "engine_run (x # xs) conn = engine_run xs (engine_step x conn)"

text \<open>
  Counting in a trace: the invocations of \<open>open\<close> and of \<open>closed\<close> with a given
  channel number and userdata; and in a table: the channels of that number and userdata
  that are OPEN.
\<close>

fun is_opened :: "u32 \<Rightarrow> nat \<Rightarrow> callback \<Rightarrow> bool" where
  "is_opened n u (NotifyOpen m v r) = (m = n \<and> v = u)"
| "is_opened n u _ = False"

fun is_closed :: "u32 \<Rightarrow> nat \<Rightarrow> callback \<Rightarrow> bool" where
  "is_closed n u (NotifyClosed m v) = (m = n \<and> v = u)"
| "is_closed n u _ = False"

definition opened_count :: "u32 \<Rightarrow> nat \<Rightarrow> callback list \<Rightarrow> nat" where
  "opened_count n u calls = length (filter (is_opened n u) calls)"

definition closed_count :: "u32 \<Rightarrow> nat \<Rightarrow> callback list \<Rightarrow> nat" where
  "closed_count n u calls = length (filter (is_closed n u) calls)"

definition open_now :: "u32 \<Rightarrow> nat \<Rightarrow> SSH_CHAN list \<Rightarrow> nat" where
  "open_now n u chans =
     count_list (map (\<lambda>c. (local_num c, userdata c, status c)) chans) (n, u, CHAN_STATUS_OPEN)"

text \<open>A \<open>closed\<close> callback that does not call \<open>ssh_chan_close\<close> on its channel.\<close>

fun closes_again :: "host_call \<Rightarrow> bool" where
  "closes_again (HostClose cb) = True"
| "closes_again (HostWatchFd f en dis) = False"

definition quiet_closed :: "host_call list \<Rightarrow> bool" where
  "quiet_closed cb \<longleftrightarrow> list_all (\<lambda>c. \<not> closes_again c) cb"

text \<open>
  From one connection to a later one, the invocations of \<open>closed\<close> that were added and
  the channels that became OPEN are covered by the invocations of \<open>open\<close> that were
  added, for every channel number and userdata.
\<close>

definition keeps_balance :: "SSH_CONN \<Rightarrow> SSH_CONN \<Rightarrow> bool" where
  "keeps_balance conn conn' \<longleftrightarrow>
     (\<forall>n u. closed_count n u (trace conn') + open_now n u (channels conn')
               + opened_count n u (trace conn)
             \<le> opened_count n u (trace conn') + closed_count n u (trace conn)
               + open_now n u (channels conn))"

definition all_quiet :: "SSH_CONN \<Rightarrow> bool" where
  "all_quiet conn \<longleftrightarrow> list_all (\<lambda>c. quiet_closed (notify_closed c)) (channels conn)"

fun quiet_op :: "engine_op \<Rightarrow> bool" where
  "quiet_op (NewChan cfg) = quiet_closed (cfg_notify_closed cfg)"
| "quiet_op _ = True"

text \<open>
  What the calls of a channel's callbacks and the counts above depend on: its number, its
  userdata, its status and its \<open>closed\<close> callback.
\<close>

definition chan_view :: "SSH_CHAN \<Rightarrow> u32 \<times> nat \<times> CHAN_STATUS \<times> host_call list" where
  "chan_view c = (local_num c, userdata c, status c, notify_closed c)"

text \<open>All numbers below \<open>k\<close> are numbers of channels of the table.\<close>

definition below_used :: "SSH_CHAN list \<Rightarrow> u32 \<Rightarrow> bool" where
  "below_used chans k \<longleftrightarrow> (\<forall>j < unat k. of_nat j \<in> local_num ` set chans)"

text \<open>
  A connection with one channel, numbered \<open>0\<close>, of the host with userdata \<open>1\<close>.
\<close>

definition one_channel :: "CHAN_STATUS \<Rightarrow> int \<Rightarrow> int \<Rightarrow> SSH_CONN" where
  "one_channel st open_ret ready_ret =
     new_conn\<lparr>channels := [session_chan 0 st 1 open_ret ready_ret]\<rparr>"

text \<open>
  A run of the engine on an empty connection: two channels are registered; the first one
  is opened by \<open>CHANNEL_SUCCESS\<close>, closed by the host and swept; two more channels are
  registered.
\<close>

definition open_close_open :: "SSH_CONN option" where
  "open_close_open =
     Option.bind (chan_new new_conn (session_cfg 1 0 0)) (\<lambda>c1.
     Option.bind (chan_new c1 (session_cfg 2 0 0)) (\<lambda>c2.
     Option.bind (chan_new
        (chan_remove_closed_channels
           (ssh_chan_close_at
              (snd (chan_process_packets c2 [SSH_MSG_CHANNEL_SUCCESS # ssh_buf_set_u32 0]
                      EWOULDBLOCK)) 0))
        (session_cfg 3 0 0)) (\<lambda>c3.
     chan_new c3 (session_cfg 4 0 0))))"

text \<open>A channel whose watch set is full: eight descriptors, none of them \<open>5\<close>.\<close>

definition full_watch_chan :: SSH_CHAN where
  "full_watch_chan =
     (session_chan 0 CHAN_STATUS_OPEN 1 0 0)
       \<lparr>watch_fds := map (\<lambda>k. \<lparr>fd = k, events = POLLIN\<rparr>) [10, 11, 12, 13, 14, 15, 16, 17]\<rparr>"

section \<open>The byte reader checks every read\<close>

lemma unat_size_t_bound: "unat (w :: size_t) < 2 ^ 64"
  using unsigned_less[of w] by simp

lemma unat_size_t_add:
  "unat a + unat b < 2 ^ 64 \<Longrightarrow> unat (a + b) = unat a + unat (b :: size_t)"
  using unat_add_lem[of a b] by simp

lemma size_t_add_wraps_iff:
  "a + b < a \<longleftrightarrow> 2 ^ 64 \<le> unat a + unat (b :: size_t)"
  using no_plus_overflow_unat_size[of a b] by (auto simp: word_size not_less not_le)

lemma check_advance_ok_iff:
  "check_advance p adv l = Inr () \<longleftrightarrow> unat p + unat adv \<le> unat l"
proof (cases "unat p + unat adv < 2 ^ 64")
  case True
  then have "unat (p + adv) = unat p + unat adv"
    by (rule unat_size_t_add)
  moreover from True have "\<not> p + adv < p"
    by (simp add: size_t_add_wraps_iff)
  ultimately show ?thesis
    by (simp add: check_advance_def checked_add_def word_less_nat_alt not_less)
next
  case False
  then have "p + adv < p" by (simp add: size_t_add_wraps_iff)
  moreover from False have "\<not> unat p + unat adv \<le> unat l"
    using unat_size_t_bound[of l] by simp
  ultimately show ?thesis
    by (simp add: check_advance_def checked_add_def)
qed

lemma check_advance_cases:
  obtains (ok) "check_advance p adv l = Inr ()" "unat p + unat adv \<le> unat l"
  | (err) e where "check_advance p adv l = Inl e" "unat l < unat p + unat adv"
proof (cases "check_advance p adv l")
  case (Inl e)
  then have "check_advance p adv l \<noteq> Inr ()" by simp
  then have "unat l < unat p + unat adv" by (simp add: check_advance_ok_iff)
  with Inl show ?thesis by (rule err)
next
  case (Inr u)
  then have "check_advance p adv l = Inr ()" by simp
  then show ?thesis using ok by (simp add: check_advance_ok_iff)
qed

lemma advance_le:
  fixes p adv l :: size_t
  assumes h: "unat p + unat adv \<le> unat l"
  shows "p + adv \<le> l" and "unat (p + adv) = unat p + unat adv"
proof -
  from h have "unat p + unat adv < 2 ^ 64" using unat_size_t_bound[of l] by simp
  then show "unat (p + adv) = unat p + unat adv" by (rule unat_size_t_add)
  with h show "p + adv \<le> l" by (simp add: word_le_nat_alt)
qed


lemma unat_ucast_u32 [simp]: "unat (ucast (l :: u32) :: size_t) = unat l"
proof -
  have "unat l < 2 ^ 32" using unsigned_less[of l] by simp
  then show ?thesis by (simp add: unsigned_ucast_eq take_bit_nat_eq_self)
qed

lemma read_u8_props:
  "case ssh_buf_read_u8 buf o8 of (rc, buf', _) \<Rightarrow>
     (rc = Inr () \<longleftrightarrow> unat (pos buf) + 1 \<le> unat (len buf)) \<and>
     (rc \<noteq> Inr () \<longrightarrow> buf' = buf) \<and> len buf' = len buf \<and>
     (reader_inv buf \<longrightarrow> reader_inv buf')"
proof (cases "pos buf" "1 :: size_t" "len buf" rule: check_advance_cases)
  case ok
  then show ?thesis using advance_le[of "pos buf" 1 "len buf"]
    by (simp add: ssh_buf_read_u8_def reader_inv_def)
next
  case (err e)
  then show ?thesis by (simp add: ssh_buf_read_u8_def)
qed

lemma read_u32_props:
  "case ssh_buf_read_u32 buf o32 of (rc, buf', _) \<Rightarrow>
     (rc = Inr () \<longleftrightarrow> unat (pos buf) + 4 \<le> unat (len buf)) \<and>
     (rc \<noteq> Inr () \<longrightarrow> buf' = buf) \<and> len buf' = len buf \<and>
     (reader_inv buf \<longrightarrow> reader_inv buf')"
proof (cases "pos buf" "4 :: size_t" "len buf" rule: check_advance_cases)
  case ok
  then show ?thesis using advance_le[of "pos buf" 4 "len buf"]
    by (simp add: ssh_buf_read_u32_def reader_inv_def)
next
  case (err e)
  then show ?thesis by (simp add: ssh_buf_read_u32_def)
qed

lemma read_skip_props:
  "case ssh_buf_read_skip buf n of (rc, buf') \<Rightarrow>
     (rc = Inr () \<longleftrightarrow> unat (pos buf) + unat n \<le> unat (len buf)) \<and>
     (rc \<noteq> Inr () \<longrightarrow> buf' = buf) \<and> len buf' = len buf \<and>
     (reader_inv buf \<longrightarrow> reader_inv buf')"
proof (cases "pos buf" n "len buf" rule: check_advance_cases)
  case ok
  then show ?thesis using advance_le[of "pos buf" n "len buf"]
    by (simp add: ssh_buf_read_skip_def reader_inv_def)
next
  case (err e)
  then show ?thesis by (simp add: ssh_buf_read_skip_def)
qed

lemma read_u32_ok:
  assumes "unat (pos buf) + 4 \<le> unat (len buf)"
  shows "\<exists>v. ssh_buf_read_u32 buf (Some c) = (Inr (), buf\<lparr>pos := pos buf + 4\<rparr>, Some v)"
proof -
  from assms have "check_advance (pos buf) 4 (len buf) = Inr ()"
    by (simp add: check_advance_ok_iff)
  then show ?thesis by (simp add: ssh_buf_read_u32_def)
qed

lemma read_u32_err:
  assumes "\<not> unat (pos buf) + 4 \<le> unat (len buf)"
  shows "\<exists>e. ssh_buf_read_u32 buf c = (Inl e, buf, c)"
proof (cases "pos buf" "4 :: size_t" "len buf" rule: check_advance_cases)
  case ok
  with assms show ?thesis by simp
next
  case (err e)
  then show ?thesis by (simp add: ssh_buf_read_u32_def)
qed

lemma read_string_props:
  "case ssh_buf_read_string buf os of (rc, buf', _) \<Rightarrow>
     (rc = Inr () \<longleftrightarrow>
        unat (pos buf) + 4 \<le> unat (len buf) \<and>
        unat (pos buf) + 4 + unat (the (snd (snd (ssh_buf_read_u32 buf (Some 0)))))
          \<le> unat (len buf)) \<and>
     (rc \<noteq> Inr () \<longrightarrow> buf' = buf \<or> buf' = buf\<lparr>pos := pos buf + 4\<rparr> \<and> pos buf + 4 \<le> len buf) \<and>
     len buf' = len buf \<and>
     (reader_inv buf \<longrightarrow> reader_inv buf')"
proof (cases "unat (pos buf) + 4 \<le> unat (len buf)")
  case False
  then obtain e where "ssh_buf_read_u32 buf (Some 0) = (Inl e, buf, Some 0)"
    using read_u32_err by blast
  with False show ?thesis by (simp add: ssh_buf_read_string_def)
next
  case True
  then obtain v where v: "ssh_buf_read_u32 buf (Some 0) = (Inr (), buf\<lparr>pos := pos buf + 4\<rparr>, Some v)"
    using read_u32_ok by blast
  from True have p4: "pos buf + 4 \<le> len buf" "unat (pos buf + 4) = unat (pos buf) + 4"
    using advance_le[of "pos buf" 4 "len buf"] by simp_all
  show ?thesis
  proof (cases "pos buf + 4" "ucast v :: size_t" "len buf" rule: check_advance_cases)
    case ok
    then show ?thesis
      using True v p4 advance_le[of "pos buf + 4" "ucast v" "len buf"]
      by (simp add: ssh_buf_read_string_def reader_inv_def Let_def)
  next
    case (err e)
    then show ?thesis
      using True v p4 by (simp add: ssh_buf_read_string_def reader_inv_def)
  qed
qed

text \<open>
  Claim C8. Each of \<open>ssh_buf_read_u8\<close>, \<open>ssh_buf_read_u32\<close>,
  \<open>ssh_buf_read_string\<close> and \<open>ssh_buf_read_skip\<close> succeeds exactly when
  \<open>pos + need \<le> len\<close> holds of the unbounded sum, so the check cannot be fooled by a
  sum that wraps; a read that fails leaves the position where it was or, for
  \<open>ssh_buf_read_string\<close>, behind a length field that lay inside the buffer; the length
  is never changed, and \<open>0 \<le> pos \<le> len\<close> is kept by every operation on every input.
\<close>

theorem reader_position_invariant:
  "(case ssh_buf_read_u8 buf o8 of (rc, buf', _) \<Rightarrow>
     (rc = Inr () \<longleftrightarrow> unat (pos buf) + 1 \<le> unat (len buf)) \<and>
     (rc \<noteq> Inr () \<longrightarrow> buf' = buf) \<and> len buf' = len buf \<and>
     (reader_inv buf \<longrightarrow> reader_inv buf')) \<and>
   (case ssh_buf_read_u32 buf o32 of (rc, buf', _) \<Rightarrow>
     (rc = Inr () \<longleftrightarrow> unat (pos buf) + 4 \<le> unat (len buf)) \<and>
     (rc \<noteq> Inr () \<longrightarrow> buf' = buf) \<and> len buf' = len buf \<and>
     (reader_inv buf \<longrightarrow> reader_inv buf')) \<and>
   (case ssh_buf_read_string buf os of (rc, buf', _) \<Rightarrow>
     (rc = Inr () \<longleftrightarrow>
        unat (pos buf) + 4 \<le> unat (len buf) \<and>
        unat (pos buf) + 4 + unat (the (snd (snd (ssh_buf_read_u32 buf (Some 0)))))
          \<le> unat (len buf)) \<and>
     (rc \<noteq> Inr () \<longrightarrow> buf' = buf \<or> buf' = buf\<lparr>pos := pos buf + 4\<rparr> \<and> pos buf + 4 \<le> len buf) \<and>
     len buf' = len buf \<and>
     (reader_inv buf \<longrightarrow> reader_inv buf')) \<and>
   (case ssh_buf_read_skip buf n of (rc, buf') \<Rightarrow>
     (rc = Inr () \<longleftrightarrow> unat (pos buf) + unat n \<le> unat (len buf)) \<and>
     (rc \<noteq> Inr () \<longrightarrow> buf' = buf) \<and> len buf' = len buf \<and>
     (reader_inv buf \<longrightarrow> reader_inv buf'))"
  using read_u8_props[of buf o8] read_u32_props[of buf o32]
    read_string_props[of buf os] read_skip_props[of buf n]
  by blast

theorem reader_position_invariant_witness:
  "reader_inv (ssh_buf_reader_new [0, 0, 0, 5, 104, 105] 6)
   \<and> fst (ssh_buf_read_u8 (ssh_buf_reader_new [0, 0, 0, 5, 104, 105] 6) (Some 0)) = Inr ()
   \<and> reader_inv (fst (snd (ssh_buf_read_u8 (ssh_buf_reader_new [0, 0, 0, 5, 104, 105] 6) (Some 0))))
   \<and> fst (ssh_buf_read_u32 (ssh_buf_reader_new [0, 0, 0, 5, 104, 105] 6) (Some 0)) = Inr ()
   \<and> reader_inv (fst (snd (ssh_buf_read_u32 (ssh_buf_reader_new [0, 0, 0, 5, 104, 105] 6) (Some 0))))
   \<and> fst (ssh_buf_read_string (ssh_buf_reader_new [0, 0, 0, 5, 104, 105] 6) None) \<noteq> Inr ()
   \<and> reader_inv (fst (snd (ssh_buf_read_string (ssh_buf_reader_new [0, 0, 0, 5, 104, 105] 6) None)))
   \<and> fst (ssh_buf_read_skip (ssh_buf_reader_new [0, 0, 0, 5, 104, 105] 6) 7) \<noteq> Inr ()
   \<and> snd (ssh_buf_read_skip (ssh_buf_reader_new [0, 0, 0, 5, 104, 105] 6) 7)
       = ssh_buf_reader_new [0, 0, 0, 5, 104, 105] 6"
proof -
  let ?r = "ssh_buf_reader_new [0, 0, 0, 5, 104, 105] 6"
  have inv: "reader_inv ?r"
    by (simp add: reader_inv_def ssh_buf_reader_new_def)
  have p: "unat (pos ?r) = 0" "unat (len ?r) = 6"
    by (simp_all add: ssh_buf_reader_new_def)
  have l: "the (snd (snd (ssh_buf_read_u32 ?r (Some 0)))) = 5"
    by (simp add: ssh_buf_read_u32_def ssh_buf_reader_new_def check_advance_def checked_add_def)
  show ?thesis
    using inv reader_position_invariant[of ?r "Some 0" "Some 0" None 7]
    by (simp add: split_beta p l)
qed

text \<open>
  Claim C10. When the four bytes of the length field are there but fewer bytes than the
  length \<open>l\<close> they announce remain, \<open>ssh_buf_read_string\<close> returns an error, the reader's
  position is exactly four past where it was, and the output cell is as it was.
\<close>

theorem read_string_truncated_payload:
  assumes "unat (pos buf) + 4 \<le> unat (len buf)"
    and "snd (snd (ssh_buf_read_u32 buf (Some 0))) = Some l"
    and "unat (len buf) < unat (pos buf) + 4 + unat l"
  shows "(\<exists>e. ssh_buf_read_string buf ret_val = (Inl e, buf\<lparr>pos := pos buf + 4\<rparr>, ret_val))
         \<and> unat (pos buf + 4) = unat (pos buf) + 4"
proof -
  from assms(1) obtain v where
    v: "ssh_buf_read_u32 buf (Some 0) = (Inr (), buf\<lparr>pos := pos buf + 4\<rparr>, Some v)"
    using read_u32_ok by blast
  with assms(2) have vl: "v = l" by simp
  from assms(1) have p4: "unat (pos buf + 4) = unat (pos buf) + 4"
    using advance_le[of "pos buf" 4 "len buf"] by simp
  with assms(3) have "check_advance (pos buf + 4) (ucast l) (len buf) \<noteq> Inr ()"
    by (simp add: check_advance_ok_iff)
  then obtain e where "check_advance (pos buf + 4) (ucast l) (len buf) = Inl e"
    by (cases "check_advance (pos buf + 4) (ucast l) (len buf)") auto
  with v vl have "ssh_buf_read_string buf ret_val = (Inl e, buf\<lparr>pos := pos buf + 4\<rparr>, ret_val)"
    by (simp add: ssh_buf_read_string_def)
  with p4 show ?thesis by blast
qed

theorem read_string_truncated_payload_witness:
  "ssh_buf_read_string (ssh_buf_reader_new [0, 0, 0, 5, 104, 105] 6) (Some \<lparr>str = [7], slen = 1\<rparr>)
     = (Inl ReadPastEndOfBuffer, \<lparr>data = [0, 0, 0, 5, 104, 105], pos = 4, len = 6\<rparr>,
        Some \<lparr>str = [7], slen = 1\<rparr>)"
proof -
  let ?r = "ssh_buf_reader_new [0, 0, 0, 5, 104, 105] 6"
  have p: "unat (pos ?r) = 0" "unat (len ?r) = 6"
    by (simp_all add: ssh_buf_reader_new_def)
  have l: "snd (snd (ssh_buf_read_u32 ?r (Some 0))) = Some 5"
    by (simp add: ssh_buf_read_u32_def ssh_buf_reader_new_def check_advance_def checked_add_def)
  have "\<exists>e. ssh_buf_read_string ?r (Some \<lparr>str = [7], slen = 1\<rparr>)
          = (Inl e, ?r\<lparr>pos := pos ?r + 4\<rparr>, Some \<lparr>str = [7], slen = 1\<rparr>)"
    using read_string_truncated_payload[of ?r 5 "Some \<lparr>str = [7], slen = 1\<rparr>"] p l by simp
  then obtain e where e: "ssh_buf_read_string ?r (Some \<lparr>str = [7], slen = 1\<rparr>)
          = (Inl e, ?r\<lparr>pos := pos ?r + 4\<rparr>, Some \<lparr>str = [7], slen = 1\<rparr>)" ..
  moreover have "fst (ssh_buf_read_string ?r (Some \<lparr>str = [7], slen = 1\<rparr>)) = Inl ReadPastEndOfBuffer"
    by (simp add: ssh_buf_read_string_def ssh_buf_read_u32_def ssh_buf_reader_new_def
        check_advance_def checked_add_def)
  ultimately show ?thesis by (simp add: ssh_buf_reader_new_def)
qed

section \<open>Reading a packet from its first byte\<close>

text \<open>The four bytes that \<open>ssh_buf_set_u32\<close> writes are read back as the same value.\<close>

lemma u32_bytes_roundtrip:
  "push_bit 24 (ucast (ucast (drop_bit 24 v) :: u8))
   OR push_bit 16 (ucast (ucast (drop_bit 16 v) :: u8))
   OR push_bit 8 (ucast (ucast (drop_bit 8 v) :: u8))
   OR ucast (ucast v :: u8) = (v :: u32)"
  apply (rule bit_word_eqI)
  apply (auto simp add: bit_simps)
   apply (case_tac "16 \<le> n"; simp)
  apply (case_tac "16 \<le> n"; case_tac "24 \<le> n"; simp)
  done

lemma unat_of_nat_size_t: "k < 2 ^ 64 \<Longrightarrow> unat (of_nat k :: size_t) = k"
  by (simp add: unat_of_nat)

lemma unat_of_nat_u32: "k < 2 ^ 32 \<Longrightarrow> unat (of_nat k :: u32) = k"
  by (simp add: unat_of_nat)

text \<open>
  A reader that stands behind the bytes \<open>pre\<close> of a buffer whose length field is the
  number of its bytes.
\<close>

lemma read_u8_at:
  assumes d: "data r = pre @ b # post"
    and p: "pos r = of_nat (length pre)"
    and l: "len r = of_nat (length (data r))"
    and lt: "length (data r) < 2 ^ 64"
  shows "ssh_buf_read_u8 r (Some c) = (Inr (), r\<lparr>pos := of_nat (length pre + 1)\<rparr>, Some b)"
proof -
  from d lt have "length pre < 2 ^ 64" by simp
  then have up: "unat (pos r) = length pre" using p by (simp add: unat_of_nat_size_t)
  from l lt have ul: "unat (len r) = length (data r)" by (simp add: unat_of_nat_size_t)
  from d up ul have "check_advance (pos r) 1 (len r) = Inr ()"
    by (simp add: check_advance_ok_iff)
  moreover from d up have "data r ! unat (pos r) = b" by simp
  ultimately show ?thesis using p by (simp add: ssh_buf_read_u8_def)
qed

lemma read_u32_at:
  assumes d: "data r = pre @ ssh_buf_set_u32 v @ post"
    and p: "pos r = of_nat (length pre)"
    and l: "len r = of_nat (length (data r))"
    and lt: "length (data r) < 2 ^ 64"
  shows "ssh_buf_read_u32 r (Some c) = (Inr (), r\<lparr>pos := of_nat (length pre + 4)\<rparr>, Some v)"
proof -
  from d lt have k: "length pre + 4 < 2 ^ 64" by (simp add: ssh_buf_set_u32_def)
  then have up: "unat (pos r) = length pre" using p by (simp add: unat_of_nat_size_t)
  from l lt have ul: "unat (len r) = length (data r)" by (simp add: unat_of_nat_size_t)
  from d up ul have ok: "check_advance (pos r) 4 (len r) = Inr ()"
    by (simp add: check_advance_ok_iff ssh_buf_set_u32_def)
  have u1: "unat (pos r + 1) = length pre + 1"
    using k up unat_size_t_add[of "pos r" 1] by simp
  have u2: "unat (pos r + 2) = length pre + 2"
    using k up unat_size_t_add[of "pos r" 2] by simp
  have u3: "unat (pos r + 3) = length pre + 3"
    using k up unat_size_t_add[of "pos r" 3] by simp
  have b0: "data r ! unat (pos r) = ucast (drop_bit 24 v)"
    using d up by (simp add: ssh_buf_set_u32_def)
  have b1: "data r ! unat (pos r + 1) = ucast (drop_bit 16 v)"
    using d u1 by (simp add: ssh_buf_set_u32_def nth_append)
  have b2: "data r ! unat (pos r + 2) = ucast (drop_bit 8 v)"
    using d u2 by (simp add: ssh_buf_set_u32_def nth_append)
  have b3: "data r ! unat (pos r + 3) = ucast v"
    using d u3 by (simp add: ssh_buf_set_u32_def nth_append)
  show ?thesis
    unfolding ssh_buf_read_u32_def ok b0 b1 b2 b3 u32_bytes_roundtrip
    using p by simp
qed

lemma read_string_at:
  assumes d: "data r = pre @ ssh_buf_set_u32 (of_nat (length s)) @ s @ post"
    and p: "pos r = of_nat (length pre)"
    and l: "len r = of_nat (length (data r))"
    and lt: "length (data r) < 2 ^ 64"
    and s32: "length s < 2 ^ 32"
  shows "ssh_buf_read_string r (Some c) =
           (Inr (), r\<lparr>pos := of_nat (length pre + 4 + length s)\<rparr>,
            Some \<lparr>str = s, slen = of_nat (length s)\<rparr>)"
proof -
  let ?r1 = "r\<lparr>pos := of_nat (length pre + 4)\<rparr>"
  have r32: "ssh_buf_read_u32 r (Some 0) = (Inr (), ?r1, Some (of_nat (length s)))"
    using d p l lt by (rule read_u32_at)
  from s32 have un: "unat (of_nat (length s) :: u32) = length s"
    by (simp add: unat_of_nat_u32)
  have n64: "(ucast (of_nat (length s) :: u32) :: size_t) = of_nat (length s)"
    by (rule word_unat_eq_iff[THEN iffD2]) (use s32 un in \<open>simp add: unat_of_nat_size_t\<close>)
  from d lt have k: "length pre + 4 + length s < 2 ^ 64" by (simp add: ssh_buf_set_u32_def)
  then have up: "unat (of_nat (length pre + 4) :: size_t) = length pre + 4"
    by (intro unat_of_nat_size_t) simp
  from l lt have ul: "unat (len r) = length (data r)" by (simp add: unat_of_nat_size_t)
  have us: "unat (of_nat (length s) :: size_t) = length s"
    using k by (simp add: unat_of_nat_size_t)
  have ok: "check_advance (of_nat (length pre + 4)) (of_nat (length s)) (len r) = Inr ()"
    unfolding check_advance_ok_iff up us ul using d by (simp add: ssh_buf_set_u32_def)
  have view: "take (length s) (drop (length pre + 4) (data r)) = s"
    using d by (simp add: ssh_buf_set_u32_def)
  show ?thesis
    using r32 ok view up us
    by (simp add: ssh_buf_read_string_def n64 Let_def)
qed

lemma chan_index_by_num_Some:
  "chan_index_by_num cs n = Some i \<Longrightarrow> i < length cs \<and> local_num (cs ! i) = n"
  by (induction cs arbitrary: i) (auto split: if_splits)

text \<open>The header of a channel packet: its type, then the recipient's number.\<close>

lemma channel_packet_header:
  assumes ix: "chan_index_by_num (channels conn) n = Some i"
    and lt: "length body + 5 < 2 ^ 64"
  shows "chan_process_channel_packet conn
           (ssh_buf_reader_new (t # ssh_buf_set_u32 n @ body)
              (of_nat (length (t # ssh_buf_set_u32 n @ body))))
         = chan_channel_packet_switch conn i t
             \<lparr>data = t # ssh_buf_set_u32 n @ body, pos = 5,
              len = of_nat (length (t # ssh_buf_set_u32 n @ body))\<rparr>"
proof -
  let ?p = "t # ssh_buf_set_u32 n @ body"
  let ?r = "ssh_buf_reader_new ?p (of_nat (length ?p))"
  have lp: "length ?p < 2 ^ 64" using lt by (simp add: ssh_buf_set_u32_def)
  have r8: "ssh_buf_read_u8 ?r (Some 0) = (Inr (), ?r\<lparr>pos := of_nat (length ([] :: u8 list) + 1)\<rparr>, Some t)"
    by (rule read_u8_at[where post = "ssh_buf_set_u32 n @ body"])
       (use lp in \<open>simp_all add: ssh_buf_reader_new_def\<close>)
  have r32: "ssh_buf_read_u32 (?r\<lparr>pos := 1\<rparr>) (Some 0)
               = (Inr (), ?r\<lparr>pos := 1\<rparr>\<lparr>pos := of_nat (length [t] + 4)\<rparr>, Some n)"
    by (rule read_u32_at[where post = body])
       (use lp in \<open>simp_all add: ssh_buf_reader_new_def\<close>)
  show ?thesis
    using r8 r32 ix
    by (simp add: chan_process_channel_packet_def chan_get_by_num_def ssh_buf_reader_new_def)
qed

section \<open>Evaluation on concrete connections\<close>

lemmas msg_defs =
  SSH_MSG_GLOBAL_REQUEST_def SSH_MSG_CHANNEL_OPEN_CONFIRMATION_def
  SSH_MSG_CHANNEL_OPEN_FAILURE_def SSH_MSG_CHANNEL_SUCCESS_def
  SSH_MSG_CHANNEL_WINDOW_ADJUST_def SSH_MSG_CHANNEL_DATA_def
  SSH_MSG_CHANNEL_EOF_def SSH_MSG_CHANNEL_CLOSE_def

lemmas packet_eval =
  chan_process_channel_packet_def chan_channel_packet_switch_def chan_get_by_num_def
  ssh_packet_get_type_def ssh_buf_reader_new_def ssh_buf_read_u8_def ssh_buf_read_u32_def
  ssh_buf_read_string_def check_advance_def checked_add_def ssh_buf_set_u32_def
  ssh_chan_close_at_def ssh_chan_close_def msg_defs Let_def

lemmas fixture_defs = new_conn_def session_chan_def session_cfg_def one_channel_def

lemma chan_new_first: "chan_new new_conn (session_cfg u ro rr)
   = Some (new_conn\<lparr>channels := [session_chan 0 CHAN_STATUS_REQUESTED u ro rr]\<rparr>)"
  by (simp add: chan_new_def chan_new_local_num.simps fixture_defs)

lemmas poll_defs =
  chan_flags_to_pollfd_events_def pollfd_events_to_chan_flags_def MAX_POLL_FDS_def
  SSH_CHAN_FD_READ_def SSH_CHAN_FD_WRITE_def SSH_CHAN_FD_CLOSE_def
  POLLIN_def POLLHUP_def POLLOUT_def POLLPRI_def POLLWRBAND_def

section \<open>Allocation of local channel numbers\<close>

text \<open>
  The allocation loop ends on every table that a connection can hold. The candidate
  only grows past numbers that channels of the table use, so it stays below the number
  of channels, and a table of fewer than \<open>2^32\<close> channels never makes it wrap.
\<close>

lemma below_used_bound:
  assumes bu: "below_used chans k" and hit: "k \<in> local_num ` set chans"
  shows "unat k < length chans"
proof -
  let ?S = "(of_nat :: nat \<Rightarrow> u32) ` {0..unat k}"
  have inj: "inj_on (of_nat :: nat \<Rightarrow> u32) {0..unat k}"
  proof (rule inj_onI)
    fix a b assume a: "a \<in> {0..unat k}" and b: "b \<in> {0..unat k}"
      and e: "(of_nat a :: u32) = of_nat b"
    have k32: "unat k < 2 ^ 32" using unsigned_less[of k] by simp
    from a have "a \<le> unat k" by simp
    then have a32: "a < 2 ^ 32" using k32 by (rule le_less_trans)
    from b have "b \<le> unat k" by simp
    then have b32: "b < 2 ^ 32" using k32 by (rule le_less_trans)
    from a32 have ua: "unat (of_nat a :: u32) = a" by (rule unat_of_nat_u32)
    from b32 have ub: "unat (of_nat b :: u32) = b" by (rule unat_of_nat_u32)
    from e have "unat (of_nat a :: u32) = unat (of_nat b :: u32)" by (rule arg_cong)
    then show "a = b" by (simp only: ua ub)
  qed
  have sub: "?S \<subseteq> local_num ` set chans"
  proof
    fix x assume "x \<in> ?S"
    then obtain j where j: "j \<le> unat k" "x = of_nat j" by auto
    show "x \<in> local_num ` set chans"
    proof (cases "j < unat k")
      case True
      with bu j show ?thesis by (simp add: below_used_def)
    next
      case False
      with j have "x = k" by simp
      with hit show ?thesis by simp
    qed
  qed
  have "card ?S = unat k + 1" using inj by (simp add: card_image)
  moreover have "card ?S \<le> card (local_num ` set chans)"
    by (rule card_mono) (use sub in simp_all)
  moreover have "card (local_num ` set chans) \<le> card (set chans)"
    by (rule card_image_le) simp
  moreover have "card (set chans) \<le> length chans"
    by (rule card_length)
  ultimately show ?thesis by simp
qed

lemma below_used_step:
  assumes bu: "below_used chans k" and hit: "k \<in> local_num ` set chans"
    and short: "length chans < 2 ^ 32"
  shows "below_used chans (k + 1)" and "unat (k + 1) = unat k + 1"
proof -
  from below_used_bound[OF bu hit] short have "unat k + 1 < 2 ^ 32" by simp
  then show u: "unat (k + 1) = unat k + 1"
    using unat_add_lem[of k 1] by simp
  show "below_used chans (k + 1)"
    unfolding below_used_def
  proof (intro allI impI)
    fix j assume "j < unat (k + 1)"
    with u have "j < unat k \<or> j = unat k" by auto
    then show "of_nat j \<in> local_num ` set chans"
    proof
      assume "j < unat k" with bu show ?thesis by (simp add: below_used_def)
    next
      assume "j = unat k" with hit show ?thesis by simp
    qed
  qed
qed

lemma chan_new_local_num_returns_from:
  assumes short: "length chans < 2 ^ 32"
  shows "below_used chans k \<Longrightarrow> \<exists>n. chan_new_local_num chans i k = Some n"
proof (induction "length chans - unat k" arbitrary: k i rule: less_induct)
  case less
  note outer = less.hyps and bu = less.prems
  show ?case
  proof (induction "length chans - i" arbitrary: i rule: less_induct)
    case less
    show ?case
    proof (cases "i < length chans")
      case False
      then show ?thesis by (subst chan_new_local_num.simps) simp
    next
      case inside: True
      show ?thesis
      proof (cases "local_num (chans ! i) = k")
        case True
        with inside have hit: "k \<in> local_num ` set chans" by force
        from below_used_step[OF bu hit short] below_used_bound[OF bu hit]
        have "length chans - unat (k + 1) < length chans - unat k" "below_used chans (k + 1)"
          by simp_all
        from outer[OF this] obtain n where "chan_new_local_num chans (Suc 0) (k + 1) = Some n"
          by blast
        with inside True show ?thesis by (subst chan_new_local_num.simps) simp
      next
        case False
        from inside have "length chans - Suc i < length chans - i" by simp
        from less.hyps[OF this] obtain n where "chan_new_local_num chans (Suc i) k = Some n"
          by blast
        with inside False show ?thesis by (subst chan_new_local_num.simps) simp
      qed
    qed
  qed
qed

lemma chan_new_returns:
  assumes "length (channels conn) < 2 ^ 32"
  shows "\<exists>conn'. chan_new conn cfg = Some conn'"
proof -
  have "below_used (channels conn) 0" by (simp add: below_used_def)
  from chan_new_local_num_returns_from[OF assms this, of 0]
  show ?thesis by (auto simp add: chan_new_def)
qed

text \<open>
  Claim C1 says that \<open>chan_new\<close> gives every new channel the smallest number no channel
  of the table uses, so that no two channels ever share a number. The code does not:
  after a hit the scan goes on at index \<open>1\<close>, so the channel at index \<open>0\<close> is never
  compared with a candidate that was raised. On a table whose channels are numbered
  \<open>1\<close> and \<open>0\<close>, in that order, the loop answers \<open>1\<close>. The table arises from an
  empty connection: in the run \<open>open_close_open\<close> the channels end up numbered
  \<open>1\<close>, \<open>0\<close> and \<open>1\<close>, the first and the last (of userdata \<open>2\<close> and \<open>4\<close>) sharing
  number \<open>1\<close>.
\<close>

theorem chan_new_reuses_local_num:
  "chan_new_local_num
     [session_chan 1 CHAN_STATUS_REQUESTED 2 0 0, session_chan 0 CHAN_STATUS_REQUESTED 3 0 0] 0 0
     = Some 1
   \<and> map_option (\<lambda>c. map (\<lambda>ch. (local_num ch, userdata ch)) (channels c)) open_close_open
     = Some [(1, 2), (0, 3), (1, 4)]"
  by (simp add: open_close_open_def chan_new_def chan_new_local_num.simps fixture_defs
      packet_eval chan_remove_closed_channels_def)

section \<open>CHANNEL_OPEN_FAILURE\<close>

text \<open>
  For every connection and every \<open>CHANNEL_OPEN_FAILURE\<close> packet addressed to a channel
  of its table, the callback \<open>open_failed\<close> is invoked and nothing else changes: the
  \<open>case\<close> has no assignment to \<open>status\<close>.
\<close>

lemma open_failure_status_unchanged:
  assumes ix: "chan_index_by_num (channels conn) n = Some i"
    and lt: "length body + 5 < 2 ^ 64"
  shows "chan_process_channel_packet conn
           (ssh_buf_reader_new (SSH_MSG_CHANNEL_OPEN_FAILURE # ssh_buf_set_u32 n @ body)
              (of_nat (length (SSH_MSG_CHANNEL_OPEN_FAILURE # ssh_buf_set_u32 n @ body))))
         = (Inr (), conn\<lparr>trace := trace conn @
              [NotifyOpenFailed n (userdata (channels conn ! i))]\<rparr>)"
proof -
  from chan_index_by_num_Some[OF ix] have ln: "local_num (channels conn ! i) = n" by simp
  from channel_packet_header[OF ix lt, of SSH_MSG_CHANNEL_OPEN_FAILURE] ln show ?thesis
    by (simp add: chan_channel_packet_switch_def
        SSH_MSG_CHANNEL_OPEN_CONFIRMATION_def SSH_MSG_CHANNEL_OPEN_FAILURE_def)
qed

text \<open>
  Claim C2 says that the packet also marks the channel CLOSED, so that the event loop
  sweeps it and, no channel being left, exits. On the connection that \<open>chan_new\<close>
  makes of one configuration, the packet \<open>CHANNEL_OPEN_FAILURE(0, 2, "admin prohibited",
  "")\<close> invokes \<open>open_failed\<close> and leaves the channel REQUESTED; the sweep at the head
  of the next iteration of \<open>chan_loop\<close> removes nothing, and the table, which the loop
  tests for emptiness, still holds the channel.
\<close>

theorem open_failure_not_closed:
  "chan_new new_conn (session_cfg 1 0 0) = Some (one_channel CHAN_STATUS_REQUESTED 0 0)
   \<and> chan_process_packets (one_channel CHAN_STATUS_REQUESTED 0 0)
        [SSH_MSG_CHANNEL_OPEN_FAILURE # ssh_buf_set_u32 0 @ ssh_buf_set_u32 2
           @ ssh_buf_set_u32 16 @ cstring ''admin prohibited'' @ ssh_buf_set_u32 0] EWOULDBLOCK
       = (Inr (), (one_channel CHAN_STATUS_REQUESTED 0 0)\<lparr>trace := [NotifyOpenFailed 0 1]\<rparr>)
   \<and> chan_remove_closed_channels ((one_channel CHAN_STATUS_REQUESTED 0 0)\<lparr>trace := [NotifyOpenFailed 0 1]\<rparr>)
       = (one_channel CHAN_STATUS_REQUESTED 0 0)\<lparr>trace := [NotifyOpenFailed 0 1]\<rparr>
   \<and> map status (channels ((one_channel CHAN_STATUS_REQUESTED 0 0)\<lparr>trace := [NotifyOpenFailed 0 1]\<rparr>))
       = [CHAN_STATUS_REQUESTED]"
  by (simp add: chan_new_def chan_new_local_num.simps fixture_defs
      packet_eval chan_remove_closed_channels_def cstring_def)

section \<open>CHANNEL_EOF and CHANNEL_CLOSE\<close>

text \<open>
  Claim C3 says that \<open>CHANNEL_EOF\<close> and \<open>CHANNEL_CLOSE\<close> mark the channel CLOSED.
  An OPEN channel that receives either packet is still OPEN.
\<close>

theorem eof_close_counterexample:
  "status (channels (snd (chan_process_packets (one_channel CHAN_STATUS_OPEN 0 0)
       [SSH_MSG_CHANNEL_CLOSE # ssh_buf_set_u32 0] EWOULDBLOCK)) ! 0) \<noteq> CHAN_STATUS_CLOSED
   \<and> status (channels (snd (chan_process_packets (one_channel CHAN_STATUS_OPEN 0 0)
       [SSH_MSG_CHANNEL_EOF # ssh_buf_set_u32 0] EWOULDBLOCK)) ! 0) \<noteq> CHAN_STATUS_CLOSED"
  by (simp add: fixture_defs packet_eval)

text \<open>
  Claim C3, amended: \<open>chan_process_packets\<close> has no \<open>case\<close> for \<open>CHANNEL_EOF\<close> or
  \<open>CHANNEL_CLOSE\<close>. A packet of either type reaches \<open>default\<close> and is skipped: the
  packets after it are processed as if it had not been there, and a batch that holds
  nothing else leaves the connection as it was (no channel changes its status, no packet
  is sent, no callback is invoked).
\<close>

theorem eof_close_ignored:
  assumes "t = SSH_MSG_CHANNEL_EOF \<or> t = SSH_MSG_CHANNEL_CLOSE"
  shows "chan_process_packets conn ((t # rest) # ps) e = chan_process_packets conn ps e
         \<and> chan_process_packets conn [t # rest] EWOULDBLOCK = (Inr (), conn)"
  using assms
  by (auto simp add: ssh_packet_get_type_def ssh_buf_reader_new_def
        SSH_MSG_CHANNEL_EOF_def SSH_MSG_CHANNEL_CLOSE_def SSH_MSG_GLOBAL_REQUEST_def
        SSH_MSG_CHANNEL_WINDOW_ADJUST_def SSH_MSG_CHANNEL_DATA_def
        SSH_MSG_CHANNEL_OPEN_CONFIRMATION_def SSH_MSG_CHANNEL_OPEN_FAILURE_def
        SSH_MSG_CHANNEL_SUCCESS_def)

theorem eof_close_ignored_witness:
  "chan_process_packets (one_channel CHAN_STATUS_OPEN 0 0)
      [SSH_MSG_CHANNEL_CLOSE # ssh_buf_set_u32 0] EWOULDBLOCK
     = (Inr (), one_channel CHAN_STATUS_OPEN 0 0)
   \<and> chan_process_packets (one_channel CHAN_STATUS_OPEN 0 0)
      [SSH_MSG_CHANNEL_EOF # ssh_buf_set_u32 0] EWOULDBLOCK
     = (Inr (), one_channel CHAN_STATUS_OPEN 0 0)"
  using eof_close_ignored[of SSH_MSG_CHANNEL_CLOSE "one_channel CHAN_STATUS_OPEN 0 0"
          "ssh_buf_set_u32 0" "[]" EWOULDBLOCK]
        eof_close_ignored[of SSH_MSG_CHANNEL_EOF "one_channel CHAN_STATUS_OPEN 0 0"
          "ssh_buf_set_u32 0" "[]" EWOULDBLOCK]
  by simp

section \<open>CHANNEL_DATA\<close>

text \<open>
  Claim C4 says that a \<open>CHANNEL_DATA\<close> packet lowers \<open>local_window\<close> by the length of
  its payload. After the five bytes of "hello" the window of the channel is what it was.
\<close>

theorem channel_data_window_counterexample:
  "local_window_size (channels (snd (chan_process_packets (one_channel CHAN_STATUS_OPEN 0 0)
       [SSH_MSG_CHANNEL_DATA # ssh_buf_set_u32 0 @ ssh_buf_set_u32 5 @ cstring ''hello'']
       EWOULDBLOCK)) ! 0)
   \<noteq> local_window_size (channels (one_channel CHAN_STATUS_OPEN 0 0) ! 0) - 5"
  by (simp add: fixture_defs packet_eval cstring_def)

text \<open>
  Claim C4, amended: for every \<open>CHANNEL_DATA\<close> packet with payload \<open>p\<close> (shorter than
  \<open>2^32\<close> bytes, as its length field demands) addressed to a channel of the table, the
  engine invokes \<open>received\<close> of that channel with exactly \<open>p\<close> and its length, and does
  nothing else: every channel, \<open>local_window\<close> included, is as it was and no packet is
  sent.
\<close>

theorem channel_data_delivered:
  assumes ix: "chan_index_by_num (channels conn) n = Some i"
    and s32: "length payload < 2 ^ 32"
  shows "chan_process_channel_packet conn
           (ssh_buf_reader_new
              (SSH_MSG_CHANNEL_DATA # ssh_buf_set_u32 n
                 @ ssh_buf_set_u32 (of_nat (length payload)) @ payload)
              (of_nat (length (SSH_MSG_CHANNEL_DATA # ssh_buf_set_u32 n
                 @ ssh_buf_set_u32 (of_nat (length payload)) @ payload))))
         = (Inr (), conn\<lparr>trace := trace conn @
              [NotifyReceived n (userdata (channels conn ! i)) payload (of_nat (length payload))]\<rparr>)"
proof -
  let ?body = "ssh_buf_set_u32 (of_nat (length payload)) @ payload"
  let ?p = "SSH_MSG_CHANNEL_DATA # ssh_buf_set_u32 n @ ?body"
  have lt: "length ?body + 5 < 2 ^ 64" using s32 by (simp add: ssh_buf_set_u32_def)
  let ?r2 = "\<lparr>data = ?p, pos = 5, len = of_nat (length ?p)\<rparr>"
  have rs: "ssh_buf_read_string ?r2 (Some \<lparr>str = [], slen = 0\<rparr>)
              = (Inr (), ?r2\<lparr>pos := of_nat (length (SSH_MSG_CHANNEL_DATA # ssh_buf_set_u32 n) + 4 + length payload)\<rparr>,
                 Some \<lparr>str = payload, slen = of_nat (length payload)\<rparr>)"
    by (rule read_string_at[where post = "[]"])
       (use s32 in \<open>simp_all add: ssh_buf_set_u32_def\<close>)
  from chan_index_by_num_Some[OF ix] have ln: "local_num (channels conn ! i) = n" by simp
  from channel_packet_header[OF ix lt, of SSH_MSG_CHANNEL_DATA] rs ln show ?thesis
    by (simp add: chan_channel_packet_switch_def SSH_MSG_CHANNEL_DATA_def
        SSH_MSG_CHANNEL_OPEN_CONFIRMATION_def SSH_MSG_CHANNEL_OPEN_FAILURE_def
        SSH_MSG_CHANNEL_SUCCESS_def)
qed

theorem channel_data_delivered_witness:
  "chan_process_channel_packet (one_channel CHAN_STATUS_OPEN 0 0)
     (ssh_buf_reader_new
        (SSH_MSG_CHANNEL_DATA # ssh_buf_set_u32 0 @ ssh_buf_set_u32 5 @ cstring ''hello'')
        14)
     = (Inr (), (one_channel CHAN_STATUS_OPEN 0 0)
                  \<lparr>trace := [NotifyReceived 0 1 (cstring ''hello'') 5]\<rparr>)"
proof -
  have ix: "chan_index_by_num (channels (one_channel CHAN_STATUS_OPEN 0 0)) 0 = Some 0"
    by (simp add: fixture_defs)
  have n: "length (cstring ''hello'') < 2 ^ 32"
    by (simp add: cstring_def)
  show ?thesis
    using channel_data_delivered[OF ix n]
    by (simp add: cstring_def ssh_buf_set_u32_def fixture_defs)
qed

section \<open>CHANNEL_WINDOW_ADJUST\<close>

text \<open>
  Claim C5 says that \<open>CHANNEL_WINDOW_ADJUST\<close> adds its delta to \<open>remote_window\<close>. After
  a delta of \<open>1000\<close> the remote window of the channel is what it was.
\<close>

theorem window_adjust_counterexample:
  "remote_window_size (channels (snd (chan_process_packets (one_channel CHAN_STATUS_OPEN 0 0)
       [SSH_MSG_CHANNEL_WINDOW_ADJUST # ssh_buf_set_u32 0 @ ssh_buf_set_u32 1000]
       EWOULDBLOCK)) ! 0)
   \<noteq> remote_window_size (channels (one_channel CHAN_STATUS_OPEN 0 0) ! 0) + 1000"
  by (simp add: fixture_defs packet_eval)

text \<open>
  Claim C5, amended: \<open>chan_process_channel_packet\<close> has no \<open>case\<close> for
  \<open>CHANNEL_WINDOW_ADJUST\<close>. For every such packet addressed to a channel of the table
  the channel is looked up, the packet reaches \<open>default\<close>, and the call returns success
  with the connection as it was; \<open>remote_window\<close> is not changed.
\<close>

theorem window_adjust_unhandled:
  assumes "chan_index_by_num (channels conn) n = Some i"
  shows "chan_process_channel_packet conn
           (ssh_buf_reader_new
              (SSH_MSG_CHANNEL_WINDOW_ADJUST # ssh_buf_set_u32 n @ ssh_buf_set_u32 d)
              (of_nat (length (SSH_MSG_CHANNEL_WINDOW_ADJUST # ssh_buf_set_u32 n @ ssh_buf_set_u32 d))))
         = (Inr (), conn)"
proof -
  have "length (ssh_buf_set_u32 d) + 5 < (2 :: nat) ^ 64" by (simp add: ssh_buf_set_u32_def)
  from channel_packet_header[OF assms this] show ?thesis
    by (simp add: chan_channel_packet_switch_def SSH_MSG_CHANNEL_WINDOW_ADJUST_def
        SSH_MSG_CHANNEL_OPEN_CONFIRMATION_def SSH_MSG_CHANNEL_OPEN_FAILURE_def
        SSH_MSG_CHANNEL_SUCCESS_def SSH_MSG_CHANNEL_DATA_def)
qed

theorem window_adjust_unhandled_witness:
  "chan_process_channel_packet (one_channel CHAN_STATUS_OPEN 0 0)
     (ssh_buf_reader_new
        (SSH_MSG_CHANNEL_WINDOW_ADJUST # ssh_buf_set_u32 0 @ ssh_buf_set_u32 1000) 9)
     = (Inr (), one_channel CHAN_STATUS_OPEN 0 0)"
proof -
  have ix: "chan_index_by_num (channels (one_channel CHAN_STATUS_OPEN 0 0)) 0 = Some 0"
    by (simp add: fixture_defs)
  show ?thesis
    using window_adjust_unhandled[OF ix, of 1000]
    by (simp add: ssh_buf_set_u32_def)
qed

section \<open>ssh_chan_close\<close>

text \<open>
  Counting through a table of which one entry is replaced, and through traces that are
  appended to.
\<close>

lemma count_list_update:
  "i < length xs \<Longrightarrow>
   count_list (xs[i := y]) k + (if xs ! i = k then 1 else 0)
     = count_list xs k + (if y = k then 1 else 0)"
proof (induction xs arbitrary: i)
  case Nil
  then show ?case by simp
next
  case (Cons x xs)
  show ?case
  proof (cases i)
    case 0
    then show ?thesis by simp
  next
    case (Suc j)
    with Cons.prems have "j < length xs" by simp
    from Cons.IH[OF this] Suc show ?thesis by (auto split: if_splits)
  qed
qed

lemma opened_count_append [simp]:
  "opened_count n u (a @ b) = opened_count n u a + opened_count n u b"
  by (simp add: opened_count_def)

lemma closed_count_append [simp]:
  "closed_count n u (a @ b) = closed_count n u a + closed_count n u b"
  by (simp add: closed_count_def)

lemma keeps_balance_refl: "keeps_balance conn conn"
  by (simp add: keeps_balance_def)

lemma keeps_balance_trans:
  "keeps_balance a b \<Longrightarrow> keeps_balance b c \<Longrightarrow> keeps_balance a c"
  unfolding keeps_balance_def
proof (intro allI)
  fix n u
  assume ab: "\<forall>n u. closed_count n u (trace b) + open_now n u (channels b) + opened_count n u (trace a)
             \<le> opened_count n u (trace b) + closed_count n u (trace a) + open_now n u (channels a)"
    and bc: "\<forall>n u. closed_count n u (trace c) + open_now n u (channels c) + opened_count n u (trace b)
             \<le> opened_count n u (trace c) + closed_count n u (trace b) + open_now n u (channels b)"
  from ab have "closed_count n u (trace b) + open_now n u (channels b) + opened_count n u (trace a)
             \<le> opened_count n u (trace b) + closed_count n u (trace a) + open_now n u (channels a)"
    by blast
  moreover from bc have "closed_count n u (trace c) + open_now n u (channels c) + opened_count n u (trace b)
             \<le> opened_count n u (trace c) + closed_count n u (trace b) + open_now n u (channels b)"
    by blast
  ultimately show "closed_count n u (trace c) + open_now n u (channels c) + opened_count n u (trace a)
             \<le> opened_count n u (trace c) + closed_count n u (trace a) + open_now n u (channels a)"
    by linarith
qed

text \<open>
  A \<open>closed\<close> callback that does not close again changes nothing of its channel but
  the watch set, and \<open>ssh_chan_close\<close> then invokes it exactly once.
\<close>

lemma watch_fd_frame:
  "snd (ssh_chan_watch_fd chan f en dis) = chan\<lparr>watch_fds := watch_fds (snd (ssh_chan_watch_fd chan f en dis))\<rparr>"
  by (auto simp add: ssh_chan_watch_fd_def Let_def split: prod.splits sum.splits)

lemma host_calls_quiet:
  "quiet_closed cb \<Longrightarrow>
   \<exists>ws. host_calls cb chan = (chan\<lparr>watch_fds := ws\<rparr>, [])"
proof (induction cb arbitrary: chan)
  case Nil
  have "chan = chan\<lparr>watch_fds := watch_fds chan\<rparr>" by simp
  then show ?case by (metis host_calls.simps(1))
next
  case (Cons c cs)
  then have q: "quiet_closed cs" and nc: "\<not> closes_again c"
    by (simp_all add: quiet_closed_def)
  from nc obtain f en dis where c: "c = HostWatchFd f en dis" by (cases c) auto
  let ?c1 = "snd (ssh_chan_watch_fd chan f en dis)"
  from Cons.IH[OF q, of ?c1] obtain ws where ws: "host_calls cs ?c1 = (?c1\<lparr>watch_fds := ws\<rparr>, [])"
    by blast
  have "?c1\<lparr>watch_fds := ws\<rparr> = chan\<lparr>watch_fds := ws\<rparr>"
    by (subst watch_fd_frame) simp
  with ws c have "host_calls (c # cs) chan = (chan\<lparr>watch_fds := ws\<rparr>, [])" by simp
  then show ?case by blast
qed

lemma ssh_chan_close_quiet:
  assumes "quiet_closed (notify_closed chan)"
  shows "\<exists>ws. ssh_chan_close chan =
           (if status chan = CHAN_STATUS_OPEN
            then (chan\<lparr>watch_fds := ws, status := CHAN_STATUS_CLOSED\<rparr>,
                  [NotifyClosed (local_num chan) (userdata chan)])
            else (chan, []))"
proof -
  from host_calls_quiet[OF assms, of chan] obtain ws where
    "host_calls (notify_closed chan) chan = (chan\<lparr>watch_fds := ws\<rparr>, [])" by blast
  then show ?thesis by (auto simp add: ssh_chan_close_def)
qed

text \<open>
  Every operation of the engine keeps the balance, as long as no \<open>closed\<close> callback
  closes again: \<open>closed\<close> is invoked only by a close that finds the channel OPEN and
  leaves it CLOSED, and only \<open>CHANNEL_SUCCESS\<close>, which invokes \<open>open\<close>, makes a
  channel OPEN.
\<close>

lemma open_now_view:
  "open_now n u cs = count_list (map (\<lambda>v. (fst v, fst (snd v), fst (snd (snd v)))) (map chan_view cs)) (n, u, CHAN_STATUS_OPEN)"
  by (simp add: open_now_def chan_view_def comp_def)

lemma all_quiet_view:
  "all_quiet conn \<longleftrightarrow> list_all (\<lambda>v. quiet_closed (snd (snd (snd v)))) (map chan_view (channels conn))"
  by (simp add: all_quiet_def chan_view_def list_all_iff)

lemma same_view:
  assumes "trace conn' = trace conn"
    and "map chan_view (channels conn') = map chan_view (channels conn)"
  shows "keeps_balance conn conn'" and "all_quiet conn \<Longrightarrow> all_quiet conn'"
  using assms by (simp_all add: keeps_balance_def open_now_view all_quiet_view)

lemma view_update_same:
  "i < length cs \<Longrightarrow> chan_view c' = chan_view (cs ! i) \<Longrightarrow>
   map chan_view (cs[i := c']) = map chan_view cs"
  by (simp add: map_update list_update_same_conv)

lemma update_balance:
  assumes i: "i < length (channels conn)"
    and ln: "local_num c' = local_num (channels conn ! i)"
    and ud: "userdata c' = userdata (channels conn ! i)"
    and step: "\<And>n u. closed_count n u evs
                + (if (local_num c', userdata c', status c') = (n, u, CHAN_STATUS_OPEN) then 1 else 0)
              \<le> opened_count n u evs
                + (if (local_num c', userdata c', status (channels conn ! i)) = (n, u, CHAN_STATUS_OPEN)
                   then 1 else 0)"
  shows "keeps_balance conn
           (conn\<lparr>channels := (channels conn)[i := c'], trace := trace conn @ evs\<rparr>)"
  unfolding keeps_balance_def
proof (intro allI)
  fix n u
  let ?key = "\<lambda>c. (local_num c, userdata c, status c)"
  let ?cs = "channels conn"
  have i': "i < length (map ?key ?cs)" using i by simp
  have "count_list ((map ?key ?cs)[i := ?key c']) (n, u, CHAN_STATUS_OPEN)
          + (if map ?key ?cs ! i = (n, u, CHAN_STATUS_OPEN) then 1 else 0)
        = count_list (map ?key ?cs) (n, u, CHAN_STATUS_OPEN)
          + (if ?key c' = (n, u, CHAN_STATUS_OPEN) then 1 else 0)"
    by (rule count_list_update[OF i'])
  then have upd: "open_now n u (?cs[i := c'])
          + (if (local_num c', userdata c', status (?cs ! i)) = (n, u, CHAN_STATUS_OPEN) then 1 else 0)
        = open_now n u ?cs
          + (if (local_num c', userdata c', status c') = (n, u, CHAN_STATUS_OPEN) then 1 else 0)"
    using i ln ud by (simp add: open_now_def map_update)
  from step[of n u] upd
  show "closed_count n u (trace (conn\<lparr>channels := ?cs[i := c'], trace := trace conn @ evs\<rparr>))
          + open_now n u (channels (conn\<lparr>channels := ?cs[i := c'], trace := trace conn @ evs\<rparr>))
          + opened_count n u (trace conn)
        \<le> opened_count n u (trace (conn\<lparr>channels := ?cs[i := c'], trace := trace conn @ evs\<rparr>))
          + closed_count n u (trace conn) + open_now n u (channels conn)"
    by (simp split: if_splits)
qed

lemma update_quiet:
  assumes "all_quiet conn" and "notify_closed c' = notify_closed (channels conn ! i)"
    and "i < length (channels conn)"
  shows "all_quiet (conn\<lparr>channels := (channels conn)[i := c'], trace := t\<rparr>)"
  using assms
  by (auto simp add: all_quiet_def list_all_iff dest!: set_update_subset_insert[THEN subsetD]
       intro: nth_mem)

lemma close_at_step:
  assumes q: "all_quiet conn" and i: "i < length (channels conn)"
  shows "keeps_balance conn (ssh_chan_close_at conn i)" and "all_quiet (ssh_chan_close_at conn i)"
proof -
  let ?c = "channels conn ! i"
  from q i have qc: "quiet_closed (notify_closed ?c)"
    by (simp add: all_quiet_def list_all_length)
  from ssh_chan_close_quiet[OF qc] obtain ws where
    cl: "ssh_chan_close ?c =
           (if status ?c = CHAN_STATUS_OPEN
            then (?c\<lparr>watch_fds := ws, status := CHAN_STATUS_CLOSED\<rparr>,
                  [NotifyClosed (local_num ?c) (userdata ?c)])
            else (?c, []))" by blast
  show "keeps_balance conn (ssh_chan_close_at conn i)"
  proof (cases "status ?c = CHAN_STATUS_OPEN")
    case True
    with cl have e: "ssh_chan_close_at conn i =
        conn\<lparr>channels := (channels conn)[i := ?c\<lparr>watch_fds := ws, status := CHAN_STATUS_CLOSED\<rparr>],
             trace := trace conn @ [NotifyClosed (local_num ?c) (userdata ?c)]\<rparr>"
      by (simp add: ssh_chan_close_at_def)
    show ?thesis unfolding e
      by (rule update_balance[OF i]) (simp_all add: True closed_count_def opened_count_def)
  next
    case False
    with cl have "ssh_chan_close_at conn i = conn"
      by (simp add: ssh_chan_close_at_def)
    then show ?thesis by (simp add: keeps_balance_refl)
  qed
  show "all_quiet (ssh_chan_close_at conn i)"
  proof (cases "status ?c = CHAN_STATUS_OPEN")
    case True
    with cl have e: "ssh_chan_close_at conn i =
        conn\<lparr>channels := (channels conn)[i := ?c\<lparr>watch_fds := ws, status := CHAN_STATUS_CLOSED\<rparr>],
             trace := trace conn @ [NotifyClosed (local_num ?c) (userdata ?c)]\<rparr>"
      by (simp add: ssh_chan_close_at_def)
    show ?thesis unfolding e by (rule update_quiet[OF q _ i]) simp
  next
    case False
    with cl have "ssh_chan_close_at conn i = conn"
      by (simp add: ssh_chan_close_at_def)
    with q show ?thesis by simp
  qed
qed

lemma remove_closed_open_now: "open_now n u (remove_closed cs) = open_now n u cs"
  by (induction cs) (auto simp add: open_now_def)

lemma remove_closed_subset: "set (remove_closed cs) \<subseteq> set cs"
  by (induction cs) auto

lemma sweep_step:
  shows "keeps_balance conn (chan_remove_closed_channels conn)"
    and "all_quiet conn \<Longrightarrow> all_quiet (chan_remove_closed_channels conn)"
  using remove_closed_subset[of "channels conn"]
  by (auto simp add: keeps_balance_def chan_remove_closed_channels_def remove_closed_open_now
        all_quiet_def list_all_iff)

lemma chan_new_step:
  assumes "chan_new conn cfg = Some conn'"
  shows "keeps_balance conn conn'"
    and "all_quiet conn \<Longrightarrow> quiet_closed (cfg_notify_closed cfg) \<Longrightarrow> all_quiet conn'"
  using assms
  by (auto simp add: chan_new_def keeps_balance_def open_now_def all_quiet_def
        split: option.splits)

lemma watch_step:
  assumes i: "i < length (channels conn)"
  shows "keeps_balance conn
           (conn\<lparr>channels := (channels conn)[i := snd (ssh_chan_watch_fd (channels conn ! i) f en dis)]\<rparr>)"
    and "all_quiet conn \<Longrightarrow>
         all_quiet (conn\<lparr>channels := (channels conn)[i := snd (ssh_chan_watch_fd (channels conn ! i) f en dis)]\<rparr>)"
proof -
  let ?c' = "snd (ssh_chan_watch_fd (channels conn ! i) f en dis)"
  have v: "chan_view ?c' = chan_view (channels conn ! i)"
    by (subst watch_fd_frame) (simp add: chan_view_def)
  let ?conn' = "conn\<lparr>channels := (channels conn)[i := ?c']\<rparr>"
  have t: "trace ?conn' = trace conn" by simp
  have m: "map chan_view (channels ?conn') = map chan_view (channels conn)"
    using view_update_same[OF i v] by simp
  from same_view[OF t m] show "keeps_balance conn ?conn'" "all_quiet conn \<Longrightarrow> all_quiet ?conn'"
    by simp_all
qed

lemma notify_watch_fds_counts:
  "opened_count n u (notify_watch_fds chan ws p) = 0 \<and> closed_count n u (notify_watch_fds chan ws p) = 0"
  by (induction ws) (simp_all add: opened_count_def closed_count_def)

lemma notify_channels_counts:
  "opened_count n u (notify_channels cs p) = 0 \<and> closed_count n u (notify_channels cs p) = 0"
  by (induction cs) (simp_all add: notify_watch_fds_counts, simp_all add: opened_count_def closed_count_def)

lemma fd_ready_step:
  shows "keeps_balance conn (chan_notify_channels_watch_fds conn p)"
    and "all_quiet conn \<Longrightarrow> all_quiet (chan_notify_channels_watch_fds conn p)"
  by (simp_all add: keeps_balance_def chan_notify_channels_watch_fds_def notify_channels_counts
        all_quiet_def)

lemma close_all_step:
  "all_quiet conn \<Longrightarrow> k \<le> length (channels conn) \<Longrightarrow>
   keeps_balance conn (close_all conn k) \<and> all_quiet (close_all conn k)"
proof (induction k arbitrary: conn)
  case 0
  then show ?case by (simp add: keeps_balance_refl)
next
  case (Suc k)
  let ?i = "length (channels conn) - Suc k"
  from Suc.prems have i: "?i < length (channels conn)" by simp
  let ?c1 = "ssh_chan_close_at conn ?i"
  have len: "length (channels ?c1) = length (channels conn)"
    by (simp add: ssh_chan_close_at_def split: prod.splits)
  from close_at_step[OF Suc.prems(1) i] have b1: "keeps_balance conn ?c1" and q1: "all_quiet ?c1"
    by simp_all
  from Suc.prems len have "k \<le> length (channels ?c1)" by simp
  from Suc.IH[OF q1 this] have "keeps_balance ?c1 (close_all ?c1 k)" "all_quiet (close_all ?c1 k)"
    by simp_all
  with b1 show ?case by (auto intro: keeps_balance_trans)
qed

lemma close_all_channels_step:
  assumes "all_quiet conn"
  shows "keeps_balance conn (chan_close_all_channels conn)"
    and "all_quiet (chan_close_all_channels conn)"
proof -
  from close_all_step[OF assms, of "length (channels conn)"]
  have a: "keeps_balance conn (close_all conn (length (channels conn)))"
    and q: "all_quiet (close_all conn (length (channels conn)))" by simp_all
  from a sweep_step(1)[of "close_all conn (length (channels conn))"]
  show "keeps_balance conn (chan_close_all_channels conn)"
    unfolding chan_close_all_channels_def by (rule keeps_balance_trans)
  from sweep_step(2)[OF q] show "all_quiet (chan_close_all_channels conn)"
    by (simp add: chan_close_all_channels_def)
qed

text \<open>Sending a packet changes neither the table nor the trace.\<close>

lemma send_new_packet_frame:
  "send_new_packet conn ws = Inr conn' \<Longrightarrow>
   channels conn' = channels conn \<and> trace conn' = trace conn"
  by (auto simp add: send_new_packet_def ssh_conn_send_packet_def
        split: sum.splits if_splits)

lemma global_request_step:
  shows "keeps_balance conn (snd (chan_handle_global_request conn pack))"
    and "all_quiet conn \<Longrightarrow> all_quiet (snd (chan_handle_global_request conn pack))"
proof -
  have "channels (snd (chan_handle_global_request conn pack)) = channels conn
        \<and> trace (snd (chan_handle_global_request conn pack)) = trace conn"
    by (auto simp add: chan_handle_global_request_def
          split: prod.splits sum.splits dest: send_new_packet_frame)
  then show "keeps_balance conn (snd (chan_handle_global_request conn pack))"
    and "all_quiet conn \<Longrightarrow> all_quiet (snd (chan_handle_global_request conn pack))"
    by (simp_all add: keeps_balance_def all_quiet_def)
qed

lemma open_confirmation_frame:
  assumes i: "i < length (channels conn)"
  shows "trace (snd (chan_open_confirmation conn i pack)) = trace conn
         \<and> map chan_view (channels (snd (chan_open_confirmation conn i pack)))
             = map chan_view (channels conn)"
  using i
  by (auto simp add: chan_open_confirmation_def Let_def chan_view_def map_update
        list_update_same_conv
        split: prod.splits sum.splits SSH_CHAN_TYPE.splits dest!: send_new_packet_frame)

lemma append_trace_step:
  assumes "\<And>n u. closed_count n u evs = 0"
  shows "keeps_balance conn (conn\<lparr>trace := trace conn @ evs\<rparr>)"
    and "all_quiet conn \<Longrightarrow> all_quiet (conn\<lparr>trace := trace conn @ evs\<rparr>)"
  using assms by (simp_all add: keeps_balance_def all_quiet_def)

lemma success_step:
  assumes q: "all_quiet conn" and i: "i < length (channels conn)"
  shows "keeps_balance conn (snd (chan_channel_packet_switch conn i SSH_MSG_CHANNEL_SUCCESS pack))
         \<and> all_quiet (snd (chan_channel_packet_switch conn i SSH_MSG_CHANNEL_SUCCESS pack))"
proof -
  let ?c = "channels conn ! i"
  let ?c' = "?c\<lparr>status := CHAN_STATUS_OPEN\<rparr>"
  let ?r = "notify_open ?c' (local_num ?c') (userdata ?c')"
  let ?conn1 = "conn\<lparr>channels := (channels conn)[i := ?c'],
                     trace := trace conn @ [NotifyOpen (local_num ?c') (userdata ?c') ?r]\<rparr>"
  have b1: "keeps_balance conn ?conn1"
    by (rule update_balance[OF i]) (simp_all add: closed_count_def opened_count_def)
  have q1: "all_quiet ?conn1"
    by (rule update_quiet[OF q _ i]) simp
  have i1: "i < length (channels ?conn1)" using i by simp
  have sw: "snd (chan_channel_packet_switch conn i SSH_MSG_CHANNEL_SUCCESS pack)
              = (if ?r < 0 then ssh_chan_close_at ?conn1 i else ?conn1)"
    by (simp add: chan_channel_packet_switch_def Let_def SSH_MSG_CHANNEL_SUCCESS_def
          SSH_MSG_CHANNEL_OPEN_CONFIRMATION_def SSH_MSG_CHANNEL_OPEN_FAILURE_def)
  show ?thesis
  proof (cases "?r < 0")
    case True
    from close_at_step[OF q1 i1] b1 True sw show ?thesis
      by (auto intro: keeps_balance_trans)
  next
    case False
    with b1 q1 sw show ?thesis by simp
  qed
qed

lemma switch_step:
  assumes q: "all_quiet conn" and i: "i < length (channels conn)"
  shows "keeps_balance conn (snd (chan_channel_packet_switch conn i t pack))
         \<and> all_quiet (snd (chan_channel_packet_switch conn i t pack))"
proof -
  consider (conf) "t = SSH_MSG_CHANNEL_OPEN_CONFIRMATION"
    | (fail) "t \<noteq> SSH_MSG_CHANNEL_OPEN_CONFIRMATION" "t = SSH_MSG_CHANNEL_OPEN_FAILURE"
    | (succ) "t = SSH_MSG_CHANNEL_SUCCESS"
    | (data) "t \<noteq> SSH_MSG_CHANNEL_OPEN_CONFIRMATION" "t \<noteq> SSH_MSG_CHANNEL_OPEN_FAILURE"
             "t \<noteq> SSH_MSG_CHANNEL_SUCCESS" "t = SSH_MSG_CHANNEL_DATA"
    | (other) "t \<noteq> SSH_MSG_CHANNEL_OPEN_CONFIRMATION" "t \<noteq> SSH_MSG_CHANNEL_OPEN_FAILURE"
             "t \<noteq> SSH_MSG_CHANNEL_SUCCESS" "t \<noteq> SSH_MSG_CHANNEL_DATA"
    by blast
  then show ?thesis
  proof cases
    case conf
    from open_confirmation_frame[OF i, of pack]
    have "keeps_balance conn (snd (chan_open_confirmation conn i pack))"
      "all_quiet (snd (chan_open_confirmation conn i pack))"
      using same_view[of "snd (chan_open_confirmation conn i pack)" conn] q by simp_all
    with conf show ?thesis by (simp add: chan_channel_packet_switch_def Let_def)
  next
    case fail
    let ?evs = "[NotifyOpenFailed (local_num (channels conn ! i)) (userdata (channels conn ! i))]"
    have "\<And>n u. closed_count n u ?evs = 0" by (simp add: closed_count_def)
    from append_trace_step[OF this, of conn] q fail show ?thesis
      by (simp add: chan_channel_packet_switch_def Let_def)
  next
    case succ
    with success_step[OF q i] show ?thesis by simp
  next
    case data
    have z: "\<And>n u a b c d. closed_count n u [NotifyReceived a b c d] = 0"
      by (simp add: closed_count_def)
    from data q show ?thesis
      using append_trace_step[OF z, of conn]
      by (auto simp add: chan_channel_packet_switch_def Let_def keeps_balance_refl
            split: prod.splits sum.splits)
  next
    case other
    with q show ?thesis
      by (simp add: chan_channel_packet_switch_def Let_def keeps_balance_refl)
  qed
qed

lemma channel_packet_step:
  assumes q: "all_quiet conn"
  shows "keeps_balance conn (snd (chan_process_channel_packet conn pack))
         \<and> all_quiet (snd (chan_process_channel_packet conn pack))"
  using q switch_step[OF q] chan_index_by_num_Some
  by (auto simp add: chan_process_channel_packet_def chan_get_by_num_def keeps_balance_refl
        split: prod.splits sum.splits option.splits)

lemma packets_step:
  "all_quiet conn \<Longrightarrow>
   keeps_balance conn (snd (chan_process_packets conn ps e))
   \<and> all_quiet (snd (chan_process_packets conn ps e))"
proof (induction ps arbitrary: conn)
  case Nil
  then show ?case by (cases e) (simp_all add: keeps_balance_refl)
next
  case (Cons p ps)
  let ?pack = "ssh_buf_reader_new p (of_nat (length p))"
  let ?g = "chan_handle_global_request conn ?pack"
  let ?c = "chan_process_channel_packet conn ?pack"
  note q = Cons.prems
  have g: "keeps_balance conn (snd ?g)" "all_quiet (snd ?g)"
    using global_request_step[of conn ?pack] q by simp_all
  have c: "keeps_balance conn (snd ?c)" "all_quiet (snd ?c)"
    using channel_packet_step[OF q, of ?pack] by simp_all
  have gn: "keeps_balance conn (snd (chan_process_packets (snd ?g) ps e))
            \<and> all_quiet (snd (chan_process_packets (snd ?g) ps e))"
    using Cons.IH[OF g(2)] g(1) by (auto intro: keeps_balance_trans)
  have cn: "keeps_balance conn (snd (chan_process_packets (snd ?c) ps e))
            \<and> all_quiet (snd (chan_process_packets (snd ?c) ps e))"
    using Cons.IH[OF c(2)] c(1) by (auto intro: keeps_balance_trans)
  from Cons.IH[OF q] g c gn cn show ?case
    by (auto simp add: Let_def split: prod.splits sum.splits)
qed

lemma engine_step_balance:
  assumes "all_quiet conn" and "quiet_op x"
  shows "keeps_balance conn (engine_step x conn) \<and> all_quiet (engine_step x conn)"
proof (cases x)
  case (Packets ps e)
  with packets_step[OF assms(1)] show ?thesis by simp
next
  case (FdReady p)
  with fd_ready_step[of conn p] assms show ?thesis by simp
next
  case (HostCloseChan i)
  with close_at_step[OF assms(1), of i] assms show ?thesis by (simp add: keeps_balance_refl)
next
  case (HostWatchChan i f en dis)
  with watch_step[of i conn f en dis] assms show ?thesis by (simp add: keeps_balance_refl)
next
  case Sweep
  with sweep_step[of conn] assms show ?thesis by simp
next
  case (NewChan cfg)
  with chan_new_step[of conn cfg] assms show ?thesis
    by (auto simp add: keeps_balance_refl split: option.splits)
next
  case CloseAll
  with close_all_channels_step[OF assms(1)] show ?thesis by simp
qed

lemma engine_run_balance:
  "all_quiet conn \<Longrightarrow> list_all quiet_op ops \<Longrightarrow>
   keeps_balance conn (engine_run ops conn) \<and> all_quiet (engine_run ops conn)"
proof (induction ops arbitrary: conn)
  case Nil
  then show ?case by (simp add: keeps_balance_refl)
next
  case (Cons x xs)
  then have qx: "quiet_op x" and qxs: "list_all quiet_op xs" by simp_all
  from engine_step_balance[OF Cons.prems(1) qx]
  have b: "keeps_balance conn (engine_step x conn)" and q: "all_quiet (engine_step x conn)"
    by simp_all
  from Cons.IH[OF q qxs] b show ?case by (auto intro: keeps_balance_trans)
qed

text \<open>
  Claim C6 says that \<open>ssh_chan_close\<close> leaves a channel of any state but CLOSED in
  state CLOSED, and that \<open>closed\<close> fires at most once per channel whatever happens.
  A REQUESTED channel is still REQUESTED after the call. A channel that
  \<open>CHANNEL_SUCCESS\<close> opens twice before the sweep, its \<open>open\<close> callback failing both
  times, is closed twice. And a \<open>closed\<close> callback that calls \<open>ssh_chan_close\<close> on
  its channel finds the channel still OPEN and is invoked a second time.
\<close>

theorem ssh_chan_close_counterexample:
  "status (fst (ssh_chan_close (session_chan 0 CHAN_STATUS_REQUESTED 1 0 0))) \<noteq> CHAN_STATUS_CLOSED
   \<and> trace (snd (chan_process_packets (one_channel CHAN_STATUS_REQUESTED (- 1) 0)
        [SSH_MSG_CHANNEL_SUCCESS # ssh_buf_set_u32 0, SSH_MSG_CHANNEL_SUCCESS # ssh_buf_set_u32 0]
        EWOULDBLOCK))
     = [NotifyOpen 0 1 (- 1), NotifyClosed 0 1, NotifyOpen 0 1 (- 1), NotifyClosed 0 1]
   \<and> snd (ssh_chan_close ((session_chan 0 CHAN_STATUS_OPEN 1 0 0)\<lparr>notify_closed := [HostClose []]\<rparr>))
     = [NotifyClosed 0 1, NotifyClosed 0 1]"
  by (simp add: fixture_defs packet_eval)

text \<open>
  Claim C6, amended. \<open>ssh_chan_close\<close> acts on an OPEN channel only: it invokes
  \<open>closed\<close> and, the callback having returned, the channel is CLOSED; the callback is
  invoked exactly once if it does not itself call \<open>ssh_chan_close\<close>. On a channel in
  any other state (CREATED, REQUESTED, CLOSED) the call changes nothing and invokes
  nothing. A second call right after the first never has an effect. And over any
  sequence of operations of the engine and calls of the host in which no \<open>closed\<close>
  callback calls \<open>ssh_chan_close\<close>, the invocations of \<open>closed\<close> on a channel (told
  by its number and userdata) that are added, together with the channels that became
  OPEN, never exceed the invocations of \<open>open\<close> that are added: from a connection
  with an empty trace and no such channel OPEN, \<open>closed\<close> fires at most as often as
  \<open>open\<close>, so at most once on a channel that is opened once.
\<close>

theorem ssh_chan_close_once:
  "(status chan \<noteq> CHAN_STATUS_OPEN \<longrightarrow> ssh_chan_close chan = (chan, []))
   \<and> (status chan = CHAN_STATUS_OPEN \<longrightarrow>
        status (fst (ssh_chan_close chan)) = CHAN_STATUS_CLOSED
        \<and> (\<exists>calls. snd (ssh_chan_close chan)
               = NotifyClosed (local_num chan) (userdata chan) # calls))
   \<and> (status chan = CHAN_STATUS_OPEN \<and> quiet_closed (notify_closed chan) \<longrightarrow>
        snd (ssh_chan_close chan) = [NotifyClosed (local_num chan) (userdata chan)])
   \<and> (status chan = CHAN_STATUS_OPEN \<and> notify_closed chan = [] \<longrightarrow>
        ssh_chan_close chan = (chan\<lparr>status := CHAN_STATUS_CLOSED\<rparr>,
                               [NotifyClosed (local_num chan) (userdata chan)]))
   \<and> ssh_chan_close (fst (ssh_chan_close chan)) = (fst (ssh_chan_close chan), [])
   \<and> (all_quiet conn \<and> list_all quiet_op ops \<longrightarrow>
        closed_count n u (trace (engine_run ops conn))
          + open_now n u (channels (engine_run ops conn)) + opened_count n u (trace conn)
        \<le> opened_count n u (trace (engine_run ops conn))
          + closed_count n u (trace conn) + open_now n u (channels conn))
   \<and> (all_quiet conn \<and> list_all quiet_op ops \<and> trace conn = []
        \<and> open_now n u (channels conn) = 0 \<longrightarrow>
        closed_count n u (trace (engine_run ops conn))
        \<le> opened_count n u (trace (engine_run ops conn)))"
proof -
  have not_open: "ssh_chan_close chan = (chan, [])" if "status chan \<noteq> CHAN_STATUS_OPEN"
    using that by (simp add: ssh_chan_close_def)
  have is_open: "status (fst (ssh_chan_close chan)) = CHAN_STATUS_CLOSED
      \<and> (\<exists>calls. snd (ssh_chan_close chan) = NotifyClosed (local_num chan) (userdata chan) # calls)"
    if "status chan = CHAN_STATUS_OPEN"
    using that by (simp add: ssh_chan_close_def split: prod.splits)
  have quiet: "snd (ssh_chan_close chan) = [NotifyClosed (local_num chan) (userdata chan)]"
    if "status chan = CHAN_STATUS_OPEN" "quiet_closed (notify_closed chan)"
    using ssh_chan_close_quiet[OF that(2)] that(1) by auto
  have silent: "ssh_chan_close chan = (chan\<lparr>status := CHAN_STATUS_CLOSED\<rparr>,
                               [NotifyClosed (local_num chan) (userdata chan)])"
    if "status chan = CHAN_STATUS_OPEN" "notify_closed chan = []"
    using that by (simp add: ssh_chan_close_def)
  have again: "ssh_chan_close (fst (ssh_chan_close chan)) = (fst (ssh_chan_close chan), [])"
    by (simp add: ssh_chan_close_def split: prod.splits)
  have run: "closed_count n u (trace (engine_run ops conn))
          + open_now n u (channels (engine_run ops conn)) + opened_count n u (trace conn)
        \<le> opened_count n u (trace (engine_run ops conn))
          + closed_count n u (trace conn) + open_now n u (channels conn)"
    if "all_quiet conn" "list_all quiet_op ops"
    using engine_run_balance[OF that] by (simp add: keeps_balance_def)
  have fresh: "closed_count n u (trace (engine_run ops conn))
        \<le> opened_count n u (trace (engine_run ops conn))"
    if "all_quiet conn" "list_all quiet_op ops" "trace conn = []" "open_now n u (channels conn) = 0"
    using run[OF that(1,2)] that(3,4) by (simp add: closed_count_def opened_count_def)
  from not_open is_open quiet silent again run fresh show ?thesis by blast
qed

theorem ssh_chan_close_once_witness:
  "ssh_chan_close (session_chan 0 CHAN_STATUS_OPEN 1 0 0)
     = (session_chan 0 CHAN_STATUS_CLOSED 1 0 0, [NotifyClosed 0 1])
   \<and> ssh_chan_close (session_chan 0 CHAN_STATUS_REQUESTED 1 0 0)
     = (session_chan 0 CHAN_STATUS_REQUESTED 1 0 0, [])
   \<and> ssh_chan_close (session_chan 0 CHAN_STATUS_CLOSED 1 0 0)
     = (session_chan 0 CHAN_STATUS_CLOSED 1 0 0, [])
   \<and> trace (engine_run
        [NewChan (session_cfg 1 0 0),
         Packets [SSH_MSG_CHANNEL_SUCCESS # ssh_buf_set_u32 0] EWOULDBLOCK,
         HostCloseChan 0, HostCloseChan 0, FdReady \<lparr>fd = 5, events = POLLIN, revents = POLLIN\<rparr>,
         CloseAll] new_conn)
     = [NotifyOpen 0 1 0, NotifyClosed 0 1]
   \<and> closed_count 0 1 (trace (engine_run
        [NewChan (session_cfg 1 0 0),
         Packets [SSH_MSG_CHANNEL_SUCCESS # ssh_buf_set_u32 0] EWOULDBLOCK,
         HostCloseChan 0, HostCloseChan 0, FdReady \<lparr>fd = 5, events = POLLIN, revents = POLLIN\<rparr>,
         CloseAll] new_conn))
     \<le> opened_count 0 1 (trace (engine_run
        [NewChan (session_cfg 1 0 0),
         Packets [SSH_MSG_CHANNEL_SUCCESS # ssh_buf_set_u32 0] EWOULDBLOCK,
         HostCloseChan 0, HostCloseChan 0, FdReady \<lparr>fd = 5, events = POLLIN, revents = POLLIN\<rparr>,
         CloseAll] new_conn))"
proof -
  let ?ops = "[NewChan (session_cfg 1 0 0),
         Packets [SSH_MSG_CHANNEL_SUCCESS # ssh_buf_set_u32 0] EWOULDBLOCK,
         HostCloseChan 0, HostCloseChan 0, FdReady \<lparr>fd = 5, events = POLLIN, revents = POLLIN\<rparr>,
         CloseAll]"
  have st: "status (session_chan 0 CHAN_STATUS_OPEN u 0 0) = CHAN_STATUS_OPEN"
    "status (session_chan 0 CHAN_STATUS_REQUESTED u 0 0) \<noteq> CHAN_STATUS_OPEN"
    "status (session_chan 0 CHAN_STATUS_CLOSED u 0 0) \<noteq> CHAN_STATUS_OPEN"
    "notify_closed (session_chan 0 CHAN_STATUS_OPEN u 0 0) = []" for u
    by (simp_all add: session_chan_def)
  have upd: "(session_chan 0 CHAN_STATUS_OPEN u 0 0)\<lparr>status := CHAN_STATUS_CLOSED\<rparr>
               = session_chan 0 CHAN_STATUS_CLOSED u 0 0" for u
    by (simp add: session_chan_def)
  have q: "all_quiet new_conn" "list_all quiet_op ?ops" "trace new_conn = []"
    "open_now 0 1 (channels new_conn) = 0"
    by (simp_all add: all_quiet_def new_conn_def session_cfg_def quiet_closed_def open_now_def)
  have c1: "ssh_chan_close (session_chan 0 CHAN_STATUS_OPEN 1 0 0)
     = (session_chan 0 CHAN_STATUS_CLOSED 1 0 0, [NotifyClosed 0 1])"
    using ssh_chan_close_once[of "session_chan 0 CHAN_STATUS_OPEN 1 0 0"] st upd
    by (simp add: session_chan_def)
  have c2: "ssh_chan_close (session_chan 0 CHAN_STATUS_REQUESTED 1 0 0)
     = (session_chan 0 CHAN_STATUS_REQUESTED 1 0 0, [])"
    using ssh_chan_close_once[of "session_chan 0 CHAN_STATUS_REQUESTED 1 0 0"] st by simp
  have c3: "ssh_chan_close (session_chan 0 CHAN_STATUS_CLOSED 1 0 0)
     = (session_chan 0 CHAN_STATUS_CLOSED 1 0 0, [])"
    using ssh_chan_close_once[of "session_chan 0 CHAN_STATUS_CLOSED 1 0 0"] st by simp
  have c4: "closed_count 0 1 (trace (engine_run ?ops new_conn))
            \<le> opened_count 0 1 (trace (engine_run ?ops new_conn))"
    using ssh_chan_close_once[of _ new_conn ?ops 0 1] q by blast
  have c5: "trace (engine_run ?ops new_conn) = [NotifyOpen 0 1 0, NotifyClosed 0 1]"
    by (simp add: chan_new_def chan_new_local_num.simps fixture_defs packet_eval
        chan_notify_channels_watch_fds_def chan_close_all_channels_def
        chan_remove_closed_channels_def)
  from c1 c2 c3 c4 c5 show ?thesis by simp
qed

section \<open>Errors of callbacks\<close>

text \<open>
  The error of \<open>notify_open\<close> is acted on: \<open>CHANNEL_SUCCESS\<close> for a channel whose
  \<open>open\<close> callback returns \<open>-1\<close> opens the channel, invokes the callback and closes
  the channel.
\<close>

lemma open_error_closes_channel:
  "chan_process_packets (one_channel CHAN_STATUS_REQUESTED (- 1) 0)
     [SSH_MSG_CHANNEL_SUCCESS # ssh_buf_set_u32 0] EWOULDBLOCK
   = (Inr (), new_conn\<lparr>channels := [session_chan 0 CHAN_STATUS_CLOSED 1 (- 1) 0],
                         trace := [NotifyOpen 0 1 (- 1), NotifyClosed 0 1]\<rparr>)"
  by (simp add: fixture_defs packet_eval)

text \<open>
  Whatever \<open>notify_fd_ready\<close> returns, the readiness dispatch leaves every channel,
  the packets sent and the state of the transport as they were.
\<close>

lemma fd_ready_dispatch_keeps_channels:
  "channels (chan_notify_channels_watch_fds conn poll_fd) = channels conn
   \<and> sent (chan_notify_channels_watch_fds conn poll_fd) = sent conn
   \<and> transport_ok (chan_notify_channels_watch_fds conn poll_fd) = transport_ok conn"
  by (simp add: chan_notify_channels_watch_fds_def)

text \<open>
  Claim C7 says that a negative return of any fallible callback, \<open>fd_ready\<close> in
  particular, closes the channel. \<open>chan_notify_channels_watch_fds\<close> drops the value:
  an OPEN channel that watches descriptor \<open>5\<close> and whose \<open>fd_ready\<close> returns \<open>-1\<close>
  is notified of the readiness, the trace shows the \<open>-1\<close>, and the channel is as it was,
  OPEN.
\<close>

theorem fd_ready_error_ignored:
  "ssh_chan_watch_fd (session_chan 0 CHAN_STATUS_OPEN 1 0 (- 1)) 5 SSH_CHAN_FD_READ 0
     = (Inr (), (session_chan 0 CHAN_STATUS_OPEN 1 0 (- 1))
                  \<lparr>watch_fds := [\<lparr>fd = 5, events = POLLIN OR POLLHUP\<rparr>]\<rparr>)
   \<and> chan_notify_channels_watch_fds
       (new_conn\<lparr>channels := [(session_chan 0 CHAN_STATUS_OPEN 1 0 (- 1))
                  \<lparr>watch_fds := [\<lparr>fd = 5, events = POLLIN OR POLLHUP\<rparr>]\<rparr>]\<rparr>)
       \<lparr>fd = 5, events = POLLIN OR POLLHUP, revents = POLLIN\<rparr>
     = new_conn\<lparr>channels := [(session_chan 0 CHAN_STATUS_OPEN 1 0 (- 1))
                  \<lparr>watch_fds := [\<lparr>fd = 5, events = POLLIN OR POLLHUP\<rparr>]\<rparr>],
                 trace := [NotifyFdReady 0 1 5 SSH_CHAN_FD_READ (- 1)]\<rparr>
   \<and> status ((session_chan 0 CHAN_STATUS_OPEN 1 0 (- 1))
                  \<lparr>watch_fds := [\<lparr>fd = 5, events = POLLIN OR POLLHUP\<rparr>]\<rparr>) = CHAN_STATUS_OPEN"
  by (simp add: fixture_defs ssh_chan_watch_fd_def update_poll_fd_events_def
      chan_flags_to_pollfd_events_def pollfd_events_to_chan_flags_def MAX_POLL_FDS_def
      chan_notify_channels_watch_fds_def
      SSH_CHAN_FD_READ_def SSH_CHAN_FD_WRITE_def SSH_CHAN_FD_CLOSE_def
      POLLIN_def POLLHUP_def POLLOUT_def POLLPRI_def POLLWRBAND_def Let_def)

section \<open>The watch set of a channel\<close>

lemma merge_poll_fd_events_None:
  "merge_poll_fd_events ps f a r = None \<longleftrightarrow> f \<notin> fd ` set ps"
  by (induction ps) auto

lemma merge_poll_fd_events_first:
  "f \<notin> fd ` set xs \<Longrightarrow> fd p = f \<Longrightarrow>
   merge_poll_fd_events (xs @ p # ys) f a r
     = Some (xs @ p\<lparr>events := (events p OR a) AND NOT r\<rparr> # ys)"
  by (induction xs) auto

lemma remove_empty_watches_filter:
  "remove_empty_watches ws = filter (\<lambda>w. events w \<noteq> 0) ws"
  by (induction ws) auto

lemma update_poll_fd_events_present:
  "f \<notin> fd ` set xs \<Longrightarrow> fd p = f \<Longrightarrow>
   update_poll_fd_events (xs @ p # ys) f a r
     = (Inr (), xs @ p\<lparr>events := (events p OR a) AND NOT r\<rparr> # ys)"
  by (simp add: update_poll_fd_events_def merge_poll_fd_events_first)

lemma update_poll_fd_events_absent:
  "f \<notin> fd ` set ps \<Longrightarrow>
   update_poll_fd_events ps f a r
     = (if length ps < MAX_POLL_FDS
        then (Inr (), ps @ [\<lparr>fd = f, events = a AND NOT r\<rparr>])
        else (Inl TooManyFds, ps))"
  using merge_poll_fd_events_None[of ps f a r]
  by (simp add: update_poll_fd_events_def)

text \<open>
  Claim C9, with \<open>add\<close> and \<open>remove\<close> the event masks that \<open>ssh_chan_watch_fd\<close>
  hands to \<open>update_poll_fd_events\<close>. If the descriptor is in the watch set, the events
  of its first entry become \<open>(events | add) & ~remove\<close>; if it is not and the set has
  room, an entry with \<open>add & ~remove\<close> is appended; if it is not and the set is full,
  the call fails with the channel unchanged when \<open>add\<close> is not empty, and succeeds when
  it is empty, changing nothing in a set without empty entries. Every successful call
  ends with the sweep (\<open>remove_empty_watches\<close> keeps exactly the entries with events),
  so no entry without events is left; and a set without such entries stays so through
  every call, failed ones too.
\<close>

theorem watch_fd_merge:
  "(let add = chan_flags_to_pollfd_events en; remove = chan_flags_to_pollfd_events dis;
        ws = watch_fds chan; res = ssh_chan_watch_fd chan f en dis
    in (\<forall>xs p ys. ws = xs @ p # ys \<and> f \<notin> fd ` set xs \<and> fd p = f \<longrightarrow>
          res = (Inr (), chan\<lparr>watch_fds := remove_empty_watches
                   (xs @ p\<lparr>events := (events p OR add) AND NOT remove\<rparr> # ys)\<rparr>))
     \<and> (f \<notin> fd ` set ws \<and> length ws < MAX_POLL_FDS \<longrightarrow>
          res = (Inr (), chan\<lparr>watch_fds := remove_empty_watches
                   (ws @ [\<lparr>fd = f, events = add AND NOT remove\<rparr>])\<rparr>))
     \<and> (f \<notin> fd ` set ws \<and> MAX_POLL_FDS \<le> length ws \<and> add \<noteq> 0 \<longrightarrow>
          res = (Inl TooManyFds, chan))
     \<and> (f \<notin> fd ` set ws \<and> MAX_POLL_FDS \<le> length ws \<and> add = 0 \<longrightarrow>
          res = (Inr (), chan\<lparr>watch_fds := remove_empty_watches ws\<rparr>))
     \<and> (f \<notin> fd ` set ws \<and> MAX_POLL_FDS \<le> length ws \<and> add = 0
          \<and> (\<forall>w \<in> set ws. events w \<noteq> 0) \<longrightarrow> res = (Inr (), chan))
     \<and> (fst res = Inr () \<longrightarrow> (\<forall>w \<in> set (watch_fds (snd res)). events w \<noteq> 0))
     \<and> ((\<forall>w \<in> set ws. events w \<noteq> 0) \<longrightarrow> (\<forall>w \<in> set (watch_fds (snd res)). events w \<noteq> 0))
     \<and> remove_empty_watches ws = filter (\<lambda>w. events w \<noteq> 0) ws)"
proof -
  let ?add = "chan_flags_to_pollfd_events en"
  let ?remove = "chan_flags_to_pollfd_events dis"
  let ?ws = "watch_fds chan"
  let ?res = "ssh_chan_watch_fd chan f en dis"
  have present: "?res = (Inr (), chan\<lparr>watch_fds := remove_empty_watches
                   (xs @ p\<lparr>events := (events p OR ?add) AND NOT ?remove\<rparr> # ys)\<rparr>)"
    if "?ws = xs @ p # ys" "f \<notin> fd ` set xs" "fd p = f" for xs p ys
    using that by (simp add: ssh_chan_watch_fd_def update_poll_fd_events_present)
  have room: "?res = (Inr (), chan\<lparr>watch_fds := remove_empty_watches
                   (?ws @ [\<lparr>fd = f, events = ?add AND NOT ?remove\<rparr>])\<rparr>)"
    if "f \<notin> fd ` set ?ws" "length ?ws < MAX_POLL_FDS"
    using that by (simp add: ssh_chan_watch_fd_def update_poll_fd_events_absent)
  have full_add: "?res = (Inl TooManyFds, chan)"
    if "f \<notin> fd ` set ?ws" "MAX_POLL_FDS \<le> length ?ws" "?add \<noteq> 0"
    using that by (simp add: ssh_chan_watch_fd_def update_poll_fd_events_absent)
  have full_remove: "?res = (Inr (), chan\<lparr>watch_fds := remove_empty_watches ?ws\<rparr>)"
    if "f \<notin> fd ` set ?ws" "MAX_POLL_FDS \<le> length ?ws" "?add = 0"
    using that by (simp add: ssh_chan_watch_fd_def update_poll_fd_events_absent)
  have keep: "remove_empty_watches ?ws = ?ws" if "\<forall>w \<in> set ?ws. events w \<noteq> 0"
    using that by (simp add: remove_empty_watches_filter)
  have noop: "?res = (Inr (), chan)"
    if "f \<notin> fd ` set ?ws" "MAX_POLL_FDS \<le> length ?ws" "?add = 0"
       "\<forall>w \<in> set ?ws. events w \<noteq> 0"
    using full_remove[OF that(1-3)] keep[OF that(4)] by simp
  have shape: "(\<exists>e. ?res = (Inl e, chan)) \<or> (\<exists>fds. ?res = (Inr (), chan\<lparr>watch_fds := remove_empty_watches fds\<rparr>))"
    by (cases "update_poll_fd_events ?ws f ?add ?remove")
       (auto simp add: ssh_chan_watch_fd_def update_poll_fd_events_def
          split: sum.splits option.splits if_splits)
  have swept: "\<forall>w \<in> set (watch_fds (snd ?res)). events w \<noteq> 0" if "fst ?res = Inr ()"
    using shape that by (auto simp add: remove_empty_watches_filter)
  have kept: "\<forall>w \<in> set (watch_fds (snd ?res)). events w \<noteq> 0"
    if "\<forall>w \<in> set ?ws. events w \<noteq> 0"
    using shape that by (auto simp add: remove_empty_watches_filter)
  show ?thesis
    unfolding Let_def
    using present room full_add full_remove noop swept kept remove_empty_watches_filter
    by blast
qed

theorem watch_fd_merge_witness:
  "ssh_chan_watch_fd (session_chan 0 CHAN_STATUS_OPEN 1 0 0) 5 SSH_CHAN_FD_READ 0
     = (Inr (), (session_chan 0 CHAN_STATUS_OPEN 1 0 0)
                  \<lparr>watch_fds := [\<lparr>fd = 5, events = POLLIN OR POLLHUP\<rparr>]\<rparr>)
   \<and> ssh_chan_watch_fd ((session_chan 0 CHAN_STATUS_OPEN 1 0 0)
                  \<lparr>watch_fds := [\<lparr>fd = 5, events = POLLIN OR POLLHUP\<rparr>]\<rparr>) 5 SSH_CHAN_FD_WRITE 0
     = (Inr (), (session_chan 0 CHAN_STATUS_OPEN 1 0 0)
                  \<lparr>watch_fds := [\<lparr>fd = 5, events = POLLIN OR POLLHUP OR POLLOUT\<rparr>]\<rparr>)
   \<and> ssh_chan_watch_fd ((session_chan 0 CHAN_STATUS_OPEN 1 0 0)
                  \<lparr>watch_fds := [\<lparr>fd = 5, events = POLLIN OR POLLHUP OR POLLOUT\<rparr>]\<rparr>) 5 0 SSH_CHAN_FD_READ
     = (Inr (), (session_chan 0 CHAN_STATUS_OPEN 1 0 0)
                  \<lparr>watch_fds := [\<lparr>fd = 5, events = POLLOUT\<rparr>]\<rparr>)
   \<and> ssh_chan_watch_fd ((session_chan 0 CHAN_STATUS_OPEN 1 0 0)
                  \<lparr>watch_fds := [\<lparr>fd = 5, events = POLLOUT\<rparr>]\<rparr>) 5 0 SSH_CHAN_FD_WRITE
     = (Inr (), session_chan 0 CHAN_STATUS_OPEN 1 0 0)
   \<and> ssh_chan_watch_fd full_watch_chan 5 SSH_CHAN_FD_READ 0 = (Inl TooManyFds, full_watch_chan)
   \<and> ssh_chan_watch_fd full_watch_chan 5 0 SSH_CHAN_FD_READ = (Inr (), full_watch_chan)"
proof -
  let ?c = "session_chan 0 CHAN_STATUS_OPEN 1 0 0"
  let ?w = "\<lambda>e. ?c\<lparr>watch_fds := [\<lparr>fd = 5, events = e\<rparr>]\<rparr>"
  have w0: "watch_fds (session_chan 0 CHAN_STATUS_OPEN u 0 0) = []" for u
    by (simp add: session_chan_def)
  have s1: "ssh_chan_watch_fd ?c 5 SSH_CHAN_FD_READ 0 = (Inr (), ?w (POLLIN OR POLLHUP))"
    using watch_fd_merge[of SSH_CHAN_FD_READ 0 ?c 5]
    by (simp add: Let_def w0 poll_defs)
  have s2: "ssh_chan_watch_fd (?w (POLLIN OR POLLHUP)) 5 SSH_CHAN_FD_WRITE 0
              = (Inr (), ?w (POLLIN OR POLLHUP OR POLLOUT))"
    using watch_fd_merge[of SSH_CHAN_FD_WRITE 0 "?w (POLLIN OR POLLHUP)" 5, unfolded Let_def,
            THEN conjunct1, rule_format, of "[]" "\<lparr>fd = 5, events = POLLIN OR POLLHUP\<rparr>" "[]"]
    by (simp add: poll_defs)
  have s3: "ssh_chan_watch_fd (?w (POLLIN OR POLLHUP OR POLLOUT)) 5 0 SSH_CHAN_FD_READ
              = (Inr (), ?w POLLOUT)"
    using watch_fd_merge[of 0 SSH_CHAN_FD_READ "?w (POLLIN OR POLLHUP OR POLLOUT)" 5, unfolded Let_def,
            THEN conjunct1, rule_format, of "[]" "\<lparr>fd = 5, events = POLLIN OR POLLHUP OR POLLOUT\<rparr>" "[]"]
    by (simp add: poll_defs)
  have s4: "ssh_chan_watch_fd (?w POLLOUT) 5 0 SSH_CHAN_FD_WRITE = (Inr (), ?c)"
    using watch_fd_merge[of 0 SSH_CHAN_FD_WRITE "?w POLLOUT" 5, unfolded Let_def,
            THEN conjunct1, rule_format, of "[]" "\<lparr>fd = 5, events = POLLOUT\<rparr>" "[]"]
    by (simp add: poll_defs session_chan_def)
  have wf: "5 \<notin> fd ` set (watch_fds full_watch_chan)"
    "MAX_POLL_FDS \<le> length (watch_fds full_watch_chan)"
    "\<forall>w \<in> set (watch_fds full_watch_chan). events w \<noteq> 0"
    by (simp_all add: full_watch_chan_def poll_defs)
  have s5: "ssh_chan_watch_fd full_watch_chan 5 SSH_CHAN_FD_READ 0 = (Inl TooManyFds, full_watch_chan)"
    using watch_fd_merge[of SSH_CHAN_FD_READ 0 full_watch_chan 5] wf
    by (simp add: Let_def poll_defs)
  have s6: "ssh_chan_watch_fd full_watch_chan 5 0 SSH_CHAN_FD_READ = (Inr (), full_watch_chan)"
    using watch_fd_merge[of 0 SSH_CHAN_FD_READ full_watch_chan 5] wf
    by (simp add: Let_def poll_defs)
  from s1 s2 s3 s4 s5 s6 show ?thesis by simp
qed

end
